theory Spec2Isabelle
  imports Main "HOL-Library.Sublist"
begin

section \<open>Data model of the conversation engine\<close>

text \<open>
  The chat session of \<^verbatim>\<open>geminiChat.ts\<close> keeps a history of \<^verbatim>\<open>Content\<close> objects.
  A \<^verbatim>\<open>Content\<close> has an optional role (a string) and an optional array of parts; a
  \<^verbatim>\<open>Part\<close> is an object whose fields are all optional. A field is \<open>None\<close> when the key
  is absent (its value is \<^verbatim>\<open>undefined\<close>), so \<^verbatim>\<open>Object.keys(part).length === 0\<close> holds
  exactly when every field is \<open>None\<close> and no other key is present. The payloads of
  function calls and function responses are kept as opaque strings; \<open>otherKeys\<close> lists
  the names of any further keys of the object (inline data, file data and so on).
\<close>

text \<open>
  The field \<^verbatim>\<open>text\<close> of a part is written \<open>text'\<close>. Objects are modelled by their
  values: a method that mutates the history or one of its entries in place returns the
  session with the new value. Each send awaits the previous one (\<^verbatim>\<open>sendPromise\<close>), so the
  calls on one session are modelled as run one after the other.
\<close>

record part =
  text' :: "string option"
  thought :: "bool option"
  functionCall :: "string option"
  functionResponse :: "string option"
  otherKeys :: "string list"

record content =
  role :: "string option"
  parts :: "part list option"

definition noKeys :: "part \<Rightarrow> bool" where
  "noKeys p \<longleftrightarrow>
     text' p = None \<and> thought p = None \<and> functionCall p = None \<and>
     functionResponse p = None \<and> otherKeys p = []"

text \<open>\<^verbatim>\<open>!part.thought\<close>: the flag is absent or false.\<close>

definition notThought :: "part \<Rightarrow> bool" where
  "notThought p \<longleftrightarrow> (case thought p of None \<Rightarrow> True | Some b \<Rightarrow> \<not> b)"

text \<open>
  The body of the \<^verbatim>\<open>for\<close> loop of \<^verbatim>\<open>isValidContent\<close>: a part makes the content
  invalid when it has no keys, or when it is not a thought and its text is the empty string.
\<close>

definition invalidPart :: "part \<Rightarrow> bool" where
  "invalidPart p \<longleftrightarrow> noKeys p \<or> (notThought p \<and> text' p \<noteq> None \<and> text' p = Some [])"

fun validParts :: "part list \<Rightarrow> bool" where
  "validParts [] = True"
| "validParts (p # ps) = (if invalidPart p then False else validParts ps)"

definition isValidContent :: "content \<Rightarrow> bool" where
  "isValidContent c =
     (case parts c of
        None \<Rightarrow> False
      | Some ps \<Rightarrow> if length ps = 0 then False else validParts ps)"

definition isUser :: "content \<Rightarrow> bool" where
  "isUser c \<longleftrightarrow> role c = Some ''user''"

definition isModel :: "content \<Rightarrow> bool" where
  "isModel c \<longleftrightarrow> role c = Some ''model''"

section \<open>Curated history\<close>

text \<open>
  The inner \<^verbatim>\<open>while\<close> loop of \<^verbatim>\<open>extractCuratedHistory\<close>: starting at the current
  position it collects the turns whose role is \<^verbatim>\<open>model\<close>, clears \<open>isValid\<close> at the
  first invalid one, and stops at the end of the history or at the first turn of another
  role. The position \<open>i\<close> of the source is the list of turns not yet visited.
\<close>

fun collectModelOutput ::
  "content list \<Rightarrow> content list \<Rightarrow> bool \<Rightarrow> content list \<times> bool \<times> content list" where
  "collectModelOutput [] modelOutput isValid = (modelOutput, isValid, [])"
| "collectModelOutput (c # cs) modelOutput isValid =
     (if isModel c
      then collectModelOutput cs (modelOutput @ [c])
             (if isValid \<and> \<not> isValidContent c then False else isValid)
      else (modelOutput, isValid, c # cs))"

text \<open>
  The outer loop. A turn whose role is \<^verbatim>\<open>user\<close> is pushed; any other turn enters the
  \<^verbatim>\<open>else\<close> branch, where the inner loop consumes model turns only. A turn that is neither
  a user nor a model turn is therefore never passed, and the loop does not return: the
  result \<open>None\<close> stands for that.
\<close>

partial_function (option) curateLoop :: "content list \<Rightarrow> content list \<Rightarrow> content list option" where
  "curateLoop rest curatedHistory =
     (case rest of
        [] \<Rightarrow> Some curatedHistory
      | c # cs \<Rightarrow>
          if isUser c then curateLoop cs (curatedHistory @ [c])
          else (case collectModelOutput rest [] True of
                  (modelOutput, isValid, rest') \<Rightarrow>
                    curateLoop rest' (if isValid then curatedHistory @ modelOutput else curatedHistory)))"

definition extractCuratedHistory :: "content list \<Rightarrow> content list option" where
  "extractCuratedHistory comprehensiveHistory =
     (if length comprehensiveHistory = 0 then Some [] else curateLoop comprehensiveHistory [])"


declare curateLoop.simps [code]

text \<open>
  The same computation as a total function, for histories whose turns are all user or
  model turns: a maximal run of model turns is kept whole or dropped whole.
\<close>

function curate :: "content list \<Rightarrow> content list" where
  "curate [] = []"
| "curate (c # cs) =
     (if isUser c then c # curate cs
      else (if list_all isValidContent (c # takeWhile isModel cs)
            then c # takeWhile isModel cs else [])
           @ curate (dropWhile isModel cs))"
  by pat_completeness auto
termination
  by (relation "measure length") (auto simp: length_dropWhile_le less_Suc_eq_le)

definition validRoles :: "content list \<Rightarrow> bool" where
  "validRoles h \<longleftrightarrow> list_all (\<lambda>c. isUser c \<or> isModel c) h"

subsection \<open>The curated history as the specification words it\<close>

text \<open>
  A model turn is invalid if it has zero parts, or any part is wholly empty, or any
  non-thought text part is the empty string.
\<close>

definition invalidTurn :: "content \<Rightarrow> bool" where
  "invalidTurn c \<longleftrightarrow>
     (case parts c of
        None \<Rightarrow> True
      | Some ps \<Rightarrow>
          ps = [] \<or> (\<exists>p \<in> set ps. noKeys p) \<or>
          (\<exists>p \<in> set ps. thought p \<noteq> Some True \<and> text' p = Some []))"

text \<open>
  Positions \<open>i\<close> and \<open>j\<close> lie in the same run of consecutive model turns when every
  turn from the one to the other is a model turn. A turn is kept when it is a user turn,
  or a model turn whose whole run has no invalid turn. The curated history is the kept
  turns in their original order.
\<close>

definition inModelRun :: "content list \<Rightarrow> nat \<Rightarrow> nat \<Rightarrow> bool" where
  "inModelRun h i j \<longleftrightarrow> (\<forall>k \<in> set [min i j ..< Suc (max i j)]. isModel (h ! k))"

definition keptTurn :: "content list \<Rightarrow> nat \<Rightarrow> bool" where
  "keptTurn h i \<longleftrightarrow>
     isUser (h ! i) \<or>
     (isModel (h ! i) \<and>
      (\<forall>j \<in> set [0 ..< length h]. inModelRun h i j \<longrightarrow> \<not> invalidTurn (h ! j)))"

definition curatedSpec :: "content list \<Rightarrow> content list" where
  "curatedSpec h = map (\<lambda>i. h ! i) (filter (keptTurn h) [0 ..< length h])"

fun noConsecutiveSameRole :: "content list \<Rightarrow> bool" where
  "noConsecutiveSameRole [] = True"
| "noConsecutiveSameRole [c] = True"
| "noConsecutiveSameRole (c # d # rest) = (role c \<noteq> role d \<and> noConsecutiveSameRole (d # rest))"

fun noConsecutiveModel :: "content list \<Rightarrow> bool" where
  "noConsecutiveModel [] = True"
| "noConsecutiveModel [c] = True"
| "noConsecutiveModel (c # d # rest) = (\<not> (isModel c \<and> isModel d) \<and> noConsecutiveModel (d # rest))"

text \<open>A turn usable in a follow-up request on its own: a user turn, or a turn with valid content.\<close>

definition usable :: "content \<Rightarrow> bool" where
  "usable c \<longleftrightarrow> isUser c \<or> isValidContent c"

definition startsWithModel :: "content list \<Rightarrow> bool" where
  "startsWithModel h = (case h of [] \<Rightarrow> False | c # _ \<Rightarrow> isModel c)"

section \<open>The chat session\<close>

text \<open>
  A thrown value is an \<^verbatim>\<open>Error\<close> with its message, an \<^verbatim>\<open>EmptyStreamError\<close> (a subclass
  of \<^verbatim>\<open>Error\<close>) with its message, or something that is not an instance of \<^verbatim>\<open>Error\<close>.
\<close>

datatype js_error = Error string | EmptyStreamError string | NonError

fun instanceofError :: "js_error \<Rightarrow> bool" where
  "instanceofError (Error m) = True"
| "instanceofError (EmptyStreamError m) = True"
| "instanceofError NonError = False"

fun instanceofEmptyStreamError :: "js_error \<Rightarrow> bool" where
  "instanceofEmptyStreamError (EmptyStreamError m) = True"
| "instanceofEmptyStreamError e = False"

fun message :: "js_error \<Rightarrow> string" where
  "message (Error m) = m"
| "message (EmptyStreamError m) = m"
| "message NonError = []"

text \<open>
  The part of \<^verbatim>\<open>Config\<close> the chat reads and writes: the current model, the quota flag,
  the fallback flag and the authentication type of the content generator.
\<close>

record Config =
  model :: string
  quotaErrorOccurred :: bool
  fallbackMode :: bool
  authType :: "string option"

record GeminiChat =
  config :: Config
  history :: "content list"

text \<open>How a template literal prints an optional role.\<close>

definition showRole :: "string option \<Rightarrow> string" where
  "showRole r = (case r of None \<Rightarrow> ''undefined'' | Some s \<Rightarrow> s)"

fun validateHistory :: "content list \<Rightarrow> js_error + unit" where
  "validateHistory [] = Inr ()"
| "validateHistory (c # cs) =
     (if role c \<noteq> Some ''user'' \<and> role c \<noteq> Some ''model''
      then Inl (Error (''Role must be user or model, but got '' @ showRole (role c) @ ''.''))
      else validateHistory cs)"

text \<open>The constructor stores its arguments and validates the history.\<close>

definition newGeminiChat :: "Config \<Rightarrow> content list \<Rightarrow> js_error + GeminiChat" where
  "newGeminiChat cfg h =
     (case validateHistory h of
        Inl e \<Rightarrow> Inl e
      | Inr u \<Rightarrow> Inr \<lparr>config = cfg, history = h\<rparr>)"

text \<open>
  A method call ends with a thrown value (\<open>Inl\<close>) or with the session after the call
  (\<open>Inr\<close>).
\<close>

definition clearHistory :: "GeminiChat \<Rightarrow> js_error + GeminiChat" where
  "clearHistory s = Inr (s\<lparr>history := []\<rparr>)"

definition addHistory :: "content \<Rightarrow> GeminiChat \<Rightarrow> js_error + GeminiChat" where
  "addHistory c s = Inr (s\<lparr>history := history s @ [c]\<rparr>)"

definition setHistory :: "content list \<Rightarrow> GeminiChat \<Rightarrow> js_error + GeminiChat" where
  "setHistory h s = Inr (s\<lparr>history := h\<rparr>)"

text \<open>
  \<^verbatim>\<open>getHistory\<close> returns a deep copy, which is the same value. The curated variant does
  not return when \<^verbatim>\<open>extractCuratedHistory\<close> does not.
\<close>

definition getHistory :: "bool \<Rightarrow> GeminiChat \<Rightarrow> content list option" where
  "getHistory curated s =
     (if curated then extractCuratedHistory (history s) else Some (history s))"

section \<open>Recording an exchange\<close>

definition isTextContent :: "content \<Rightarrow> bool" where
  "isTextContent c \<longleftrightarrow>
     role c = Some ''model'' \<and>
     (case parts c of
        None \<Rightarrow> False
      | Some ps \<Rightarrow>
          length ps > 0 \<and>
          (case text' (hd ps) of None \<Rightarrow> False | Some t \<Rightarrow> t \<noteq> []))"

definition isThoughtContent :: "content \<Rightarrow> bool" where
  "isThoughtContent c \<longleftrightarrow>
     role c = Some ''model'' \<and>
     (case parts c of
        None \<Rightarrow> False
      | Some ps \<Rightarrow>
          length ps > 0 \<and>
          (case thought (hd ps) of None \<Rightarrow> False | Some b \<Rightarrow> b = True))"

text \<open>\<^verbatim>\<open>text || ''\<close>: an absent or empty text gives the empty string.\<close>

definition textOrEmpty :: "string option \<Rightarrow> string" where
  "textOrEmpty t = (case t of None \<Rightarrow> [] | Some s \<Rightarrow> if s = [] then [] else s)"

text \<open>\<^verbatim>\<open>text += s\<close>: string concatenation; an absent text prints as \<^verbatim>\<open>undefined\<close>.\<close>

definition plusAssign :: "string option \<Rightarrow> string \<Rightarrow> string option" where
  "plusAssign t s = (case t of None \<Rightarrow> Some (''undefined'' @ s) | Some u \<Rightarrow> Some (u @ s))"

text \<open>
  The merge both consolidation steps perform on two text contents:
  \<^verbatim>\<open>lastContent.parts[0].text += content.parts[0].text || ''\<close>, then, if the current
  content has more than one part, \<^verbatim>\<open>lastContent.parts.push(...content.parts.slice(1))\<close>.
  It is only reached when \<open>isTextContent\<close> holds of both, so both have a first part; the
  last case is never taken.
\<close>

definition mergeText :: "content \<Rightarrow> content \<Rightarrow> content" where
  "mergeText lastContent c =
     (case (parts lastContent, parts c) of
        (Some (lp # lps), Some (cp # cps)) \<Rightarrow>
          lastContent\<lparr>parts :=
            Some ((lp\<lparr>text' := plusAssign (text' lp) (textOrEmpty (text' cp))\<rparr> # lps)
                  @ (if length (cp # cps) > 1 then cps else []))\<rparr>
      | _ \<Rightarrow> lastContent)"

text \<open>
  The loop that consolidates adjacent model contents of \<open>outputContents\<close> into
  \<open>consolidatedOutputContents\<close>, the second argument. The last element of an empty array
  is \<^verbatim>\<open>undefined\<close>, which is not a text content.
\<close>

fun consolidate :: "content list \<Rightarrow> content list \<Rightarrow> content list" where
  "consolidate [] consolidatedOutputContents = consolidatedOutputContents"
| "consolidate (c # outputContents) consolidatedOutputContents =
     (if isThoughtContent c then consolidate outputContents consolidatedOutputContents
      else if consolidatedOutputContents \<noteq> [] \<and>
              isTextContent (last consolidatedOutputContents) \<and> isTextContent c
      then consolidate outputContents
             (butlast consolidatedOutputContents @ [mergeText (last consolidatedOutputContents) c])
      else consolidate outputContents (consolidatedOutputContents @ [c]))"

definition emptyModelContent :: content where
  "emptyModelContent = \<lparr>role = Some ''model'', parts = Some []\<rparr>"

text \<open>The first \<^verbatim>\<open>if\<close> chain of \<^verbatim>\<open>recordHistory\<close>, which chooses \<open>outputContents\<close>.\<close>

definition chooseOutputContents ::
  "(content \<Rightarrow> bool) \<Rightarrow> content \<Rightarrow> content list \<Rightarrow> content list" where
  "chooseOutputContents isFunctionResponse userInput modelOutput =
     (let nonThoughtModelOutput = filter (\<lambda>c. \<not> isThoughtContent c) modelOutput
      in if length nonThoughtModelOutput > 0 \<and>
            list_all (\<lambda>c. role c \<noteq> None) nonThoughtModelOutput
         then nonThoughtModelOutput
         else if length nonThoughtModelOutput = 0 \<and> length modelOutput > 0 then []
         else if \<not> isFunctionResponse userInput then [emptyModelContent]
         else [])"

text \<open>
  What is pushed for the user side: the curated side-channel history if one was given and
  is not empty, the user input otherwise.
\<close>

definition pushedForUser :: "content \<Rightarrow> content list option \<Rightarrow> content list option" where
  "pushedForUser userInput automaticFunctionCallingHistory =
     (case automaticFunctionCallingHistory of
        None \<Rightarrow> Some [userInput]
      | Some afc \<Rightarrow> if length afc > 0 then extractCuratedHistory afc else Some [userInput])"

definition canMergeWithLastHistory :: "content list option \<Rightarrow> bool" where
  "canMergeWithLastHistory automaticFunctionCallingHistory \<longleftrightarrow>
     (case automaticFunctionCallingHistory of None \<Rightarrow> True | Some afc \<Rightarrow> length afc = 0)"

text \<open>
  The last step: the consolidated output is appended to the history, its first content
  being merged into the last history entry when both are text contents and no side-channel
  history was given.
\<close>

definition appendConsolidated ::
  "content list option \<Rightarrow> content list \<Rightarrow> content list \<Rightarrow> content list" where
  "appendConsolidated automaticFunctionCallingHistory h consolidatedOutputContents =
     (if length consolidatedOutputContents > 0
      then if canMergeWithLastHistory automaticFunctionCallingHistory \<and> h \<noteq> [] \<and>
              isTextContent (last h) \<and> isTextContent (hd consolidatedOutputContents)
           then butlast h @ [mergeText (last h) (hd consolidatedOutputContents)]
                @ tl consolidatedOutputContents
           else h @ consolidatedOutputContents
      else h)"

text \<open>
  \<^verbatim>\<open>recordHistory\<close>. The helper \<^verbatim>\<open>isFunctionResponse\<close> of \<^verbatim>\<open>utils/messageInspectors\<close> is
  a parameter. The result is \<open>None\<close> when curating the side-channel history does not
  return.
\<close>

definition recordHistory ::
  "(content \<Rightarrow> bool) \<Rightarrow> content \<Rightarrow> content list \<Rightarrow> content list option \<Rightarrow>
     GeminiChat \<Rightarrow> GeminiChat option" where
  "recordHistory isFunctionResponse userInput modelOutput automaticFunctionCallingHistory s =
     (let outputContents = chooseOutputContents isFunctionResponse userInput modelOutput
      in case pushedForUser userInput automaticFunctionCallingHistory of
           None \<Rightarrow> None
         | Some pushed \<Rightarrow>
             Some (s\<lparr>history :=
               appendConsolidated automaticFunctionCallingHistory (history s @ pushed)
                 (consolidate outputContents [])\<rparr>))"

section \<open>Classifying errors\<close>

text \<open>
  \<^verbatim>\<open>String.prototype.includes\<close>, written \<open>includes'\<close>: the argument occurs as a contiguous
  substring.
\<close>

fun includes' :: "string \<Rightarrow> string \<Rightarrow> bool" where
  "includes' [] sub = (sub = [])"
| "includes' (c # s) sub = (prefix sub (c # s) \<or> includes' s sub)"

definition isDigit :: "char \<Rightarrow> bool" where
  "isDigit c \<longleftrightarrow> c \<in> set ''0123456789''"

text \<open>\<^verbatim>\<open>message.match(/5\d{2}/)\<close>: somewhere a \<^verbatim>\<open>5\<close> is followed by two digits.\<close>

fun match5xx :: "string \<Rightarrow> bool" where
  "match5xx (a # b # c # s) = ((a = CHR ''5'' \<and> isDigit b \<and> isDigit c) \<or> match5xx (b # c # s))"
| "match5xx s = False"

definition isSchemaDepthError :: "string \<Rightarrow> bool" where
  "isSchemaDepthError errorMessage = includes' errorMessage ''maximum schema depth exceeded''"

definition isInvalidArgumentError :: "string \<Rightarrow> bool" where
  "isInvalidArgumentError errorMessage = includes' errorMessage ''Request contains an invalid argument''"

text \<open>The \<^verbatim>\<open>shouldRetry\<close> callback \<^verbatim>\<open>sendMessage\<close> passes to \<^verbatim>\<open>retryWithBackoff\<close>.\<close>

definition shouldRetry :: "js_error \<Rightarrow> bool" where
  "shouldRetry error =
     (if instanceofError error \<and> message error \<noteq> []
      then if isSchemaDepthError (message error) then False
           else if includes' (message error) ''429'' then True
           else if match5xx (message error) then True
           else False
      else False)"

subsection \<open>The classification as the specification words it\<close>

text \<open>
  The retry classifier inspects the message of a failure for the substring \<^verbatim>\<open>429\<close> and for
  a 5xx pattern; a schema-depth-exceeded condition is one whose message says so.
\<close>

definition indicates429 :: "js_error \<Rightarrow> bool" where
  "indicates429 e \<longleftrightarrow> (\<exists>pre suf. message e = pre @ ''429'' @ suf)"

definition indicates5xx :: "js_error \<Rightarrow> bool" where
  "indicates5xx e \<longleftrightarrow>
     (\<exists>pre d1 d2 suf. message e = pre @ [CHR ''5'', d1, d2] @ suf \<and>
        d1 \<in> set ''0123456789'' \<and> d2 \<in> set ''0123456789'')"

definition schemaDepthExceeded :: "js_error \<Rightarrow> bool" where
  "schemaDepthExceeded e \<longleftrightarrow> (\<exists>pre suf. message e = pre @ ''maximum schema depth exceeded'' @ suf)"

definition retryableBySpec :: "js_error \<Rightarrow> bool" where
  "retryableBySpec e \<longleftrightarrow> (indicates429 e \<or> indicates5xx e) \<and> \<not> schemaDepthExceeded e"

section \<open>Model fallback\<close>

text \<open>
  The fallback handler is a callback of the CLI package. It returns a boolean, a string or
  \<^verbatim>\<open>null\<close>, or throws, and as a closure over the configuration it can change the
  configuration it is run in: \<^verbatim>\<open>handleFlashFallback\<close> reads the model again after the call to
  see whether the handler switched it.
\<close>

datatype handler_value = HFalse | HTrue | HNull | HString string

datatype handler_outcome = Returns handler_value | Throws js_error

type_synonym FlashFallbackHandler =
  "string \<Rightarrow> string \<Rightarrow> js_error \<Rightarrow> Config \<Rightarrow> handler_outcome \<times> Config"

text \<open>
  \<^verbatim>\<open>handleFlashFallback\<close>. The constants \<^verbatim>\<open>AuthType.LOGIN_WITH_GOOGLE\<close> and
  \<^verbatim>\<open>DEFAULT_GEMINI_FLASH_MODEL\<close> are declared outside the sources at hand and are
  parameters. The result is the returned model name (\<open>None\<close> for \<^verbatim>\<open>null\<close>) and the
  configuration after the call.
\<close>

definition handleFlashFallback ::
  "string \<Rightarrow> string \<Rightarrow> FlashFallbackHandler option \<Rightarrow> string option \<Rightarrow> js_error \<Rightarrow>
     Config \<Rightarrow> string option \<times> Config" where
  "handleFlashFallback LOGIN_WITH_GOOGLE DEFAULT_GEMINI_FLASH_MODEL flashFallbackHandler
       authType' error cfg =
     (if authType' \<noteq> Some LOGIN_WITH_GOOGLE then (None, cfg)
      else
        let currentModel = model cfg; fallbackModel = DEFAULT_GEMINI_FLASH_MODEL in
        if currentModel = fallbackModel then (None, cfg)
        else
          (case flashFallbackHandler of
             None \<Rightarrow> (None, cfg)
           | Some fallbackHandler \<Rightarrow>
               (case fallbackHandler currentModel fallbackModel error cfg of
                  (Throws e, cfg') \<Rightarrow> (None, cfg')
                | (Returns accepted, cfg') \<Rightarrow>
                    if accepted \<noteq> HFalse \<and> accepted \<noteq> HNull
                    then (Some fallbackModel, cfg'\<lparr>model := fallbackModel, fallbackMode := True\<rparr>)
                    else if model cfg' = fallbackModel then (None, cfg')
                    else (None, cfg'))))"

section \<open>Sending a message\<close>

record GenerateContentResponse =
  candidates :: "content option list option"
  automaticFunctionCallingHistory :: "content list option"

text \<open>
  The content generator is the remote model. Its answer to the \<open>k\<close>-th request of a session
  is a function of \<open>k\<close>, the model name and the request contents.
\<close>

type_synonym ContentGenerator =
  "nat \<Rightarrow> string \<Rightarrow> content list \<Rightarrow> js_error + GenerateContentResponse"

text \<open>What a retry loop has done so far: requests issued and delays slept, in milliseconds.\<close>

record trace =
  calls :: nat
  delays :: "nat list"

definition flashQuotaMessage :: string where
  "flashQuotaMessage = ''Please submit a new query to continue with the Flash model.''"

text \<open>The closure \<^verbatim>\<open>apiCall\<close> of \<^verbatim>\<open>sendMessage\<close>.\<close>

definition apiCall ::
  "string \<Rightarrow> ContentGenerator \<Rightarrow> content list \<Rightarrow> Config \<Rightarrow> trace \<Rightarrow>
     (js_error + GenerateContentResponse) \<times> trace" where
  "apiCall DEFAULT_GEMINI_FLASH_MODEL generateContent requestContents cfg t =
     (let modelToUse = (if model cfg = [] then DEFAULT_GEMINI_FLASH_MODEL else model cfg)
      in if quotaErrorOccurred cfg \<and> modelToUse = DEFAULT_GEMINI_FLASH_MODEL
         then (Inl (Error flashQuotaMessage), t)
         else (generateContent (calls t) modelToUse requestContents, t\<lparr>calls := Suc (calls t)\<rparr>))"

text \<open>
  Modelled from the spec: \<^verbatim>\<open>retryWithBackoff\<close> of \<^verbatim>\<open>utils/retry\<close> is not among the sources.
  The specification says: attempt the request; on failure retry with exponential backoff
  (an attempt cap, a doubling delay) if the classifier says so; on a persistent 429 (the
  retry budget is exhausted while the error is still a 429) and only for sessions
  authenticated by the interactive login, call the fallback callback and, if it accepts,
  retry once more; every other error is not retried and propagates immediately.
  The classifier \<open>shouldRetry\<close>, the callback \<open>onPersistent429\<close> and the request \<open>call\<close> are
  the arguments \<^verbatim>\<open>sendMessage\<close> passes.
\<close>

function retryWithBackoff ::
  "string \<Rightarrow> nat \<Rightarrow> (js_error \<Rightarrow> bool) \<Rightarrow>
   (string option \<Rightarrow> js_error \<Rightarrow> Config \<Rightarrow> string option \<times> Config) \<Rightarrow> string option \<Rightarrow>
   (Config \<Rightarrow> trace \<Rightarrow> (js_error + 'r) \<times> trace) \<Rightarrow>
   nat \<Rightarrow> nat \<Rightarrow> Config \<Rightarrow> trace \<Rightarrow> (js_error + 'r) \<times> Config \<times> trace" where
  "retryWithBackoff LOGIN_WITH_GOOGLE maxAttempts retryable onPersistent429 authType' call
       attempt delay cfg t =
     (case call cfg t of
        (Inr r, t') \<Rightarrow> (Inr r, cfg, t')
      | (Inl e, t') \<Rightarrow>
          if retryable e \<and> Suc attempt < maxAttempts
          then retryWithBackoff LOGIN_WITH_GOOGLE maxAttempts retryable onPersistent429 authType'
                 call (Suc attempt) (2 * delay) cfg (t'\<lparr>delays := delays t' @ [delay]\<rparr>)
          else if retryable e \<and> includes' (message e) ''429'' \<and> authType' = Some LOGIN_WITH_GOOGLE
          then (case onPersistent429 authType' e cfg of
                  (None, cfg') \<Rightarrow> (Inl e, cfg', t')
                | (Some fallbackModel, cfg') \<Rightarrow>
                    (case call cfg' t' of (res, t'') \<Rightarrow> (res, cfg', t'')))
          else (Inl e, cfg, t'))"
  by pat_completeness auto
termination
  by (relation "measure (\<lambda>(L, maxAttempts, r, p, a, c, attempt, d, cfg, t). maxAttempts - attempt)") auto

declare retryWithBackoff.simps [simp del]

text \<open>
  What \<^verbatim>\<open>sendMessage\<close> does with the outcome of the retry loop: an error is thrown on to
  the caller; a response is recorded in the history and returned. The side-channel
  history of the response is cut at the length of the curated history.
\<close>

definition recordResponse ::
  "(content \<Rightarrow> bool) \<Rightarrow> content \<Rightarrow> content list \<Rightarrow> GeminiChat \<Rightarrow>
   (js_error + GenerateContentResponse) \<times> Config \<times> trace \<Rightarrow>
   ((js_error + GenerateContentResponse) \<times> GeminiChat \<times> trace) option" where
  "recordResponse isFunctionResponse userContent curated s outcome =
     (case outcome of
        (Inl error, cfg', t) \<Rightarrow> Some (Inl error, s\<lparr>config := cfg'\<rparr>, t)
      | (Inr response, cfg', t) \<Rightarrow>
          let outputContent =
                (case candidates response of
                   None \<Rightarrow> None
                 | Some cs \<Rightarrow> (case cs of [] \<Rightarrow> None | c # rest \<Rightarrow> c));
              index = length curated;
              automaticFunctionCallingHistory' =
                (case automaticFunctionCallingHistory response of
                   None \<Rightarrow> []
                 | Some full \<Rightarrow> drop index full);
              modelOutput = (case outputContent of None \<Rightarrow> [] | Some c \<Rightarrow> [c])
          in (case recordHistory isFunctionResponse userContent modelOutput
                     (Some automaticFunctionCallingHistory') (s\<lparr>config := cfg'\<rparr>) of
                None \<Rightarrow> None
              | Some s' \<Rightarrow> Some (Inr response, s', t)))"

text \<open>
  \<^verbatim>\<open>sendMessage\<close>. The user content is what \<^verbatim>\<open>createUserContent\<close> made of the message. The
  attempt cap and the first delay are the defaults of \<^verbatim>\<open>retryWithBackoff\<close>, parameters
  here. The result is \<open>None\<close> when curating the history does not return; otherwise the
  response or the thrown error, the session after the call and the trace of the retry loop.
\<close>

definition sendMessage ::
  "string \<Rightarrow> string \<Rightarrow> nat \<Rightarrow> nat \<Rightarrow> (content \<Rightarrow> bool) \<Rightarrow> FlashFallbackHandler option \<Rightarrow>
   ContentGenerator \<Rightarrow> content \<Rightarrow> GeminiChat \<Rightarrow>
   ((js_error + GenerateContentResponse) \<times> GeminiChat \<times> trace) option" where
  "sendMessage LOGIN_WITH_GOOGLE DEFAULT_GEMINI_FLASH_MODEL maxAttempts initialDelayMs
       isFunctionResponse flashFallbackHandler generateContent userContent s =
     (case getHistory True s of
        None \<Rightarrow> None
      | Some curated \<Rightarrow>
          let requestContents = curated @ [userContent] in
          recordResponse isFunctionResponse userContent curated s
            (retryWithBackoff LOGIN_WITH_GOOGLE maxAttempts shouldRetry
               (handleFlashFallback LOGIN_WITH_GOOGLE DEFAULT_GEMINI_FLASH_MODEL flashFallbackHandler)
               (authType (config s))
               (apiCall DEFAULT_GEMINI_FLASH_MODEL generateContent requestContents)
               0 initialDelayMs (config s) \<lparr>calls = 0, delays = []\<rparr>))"

section \<open>Streaming a message\<close>

text \<open>
  A response stream yields its chunks and then ends, or raises an error after them. The
  streaming content generator rejects a request or resolves with such a stream.
\<close>

record stream =
  chunks :: "GenerateContentResponse list"
  failure :: "js_error option"

type_synonym StreamGenerator = "nat \<Rightarrow> string \<Rightarrow> content list \<Rightarrow> js_error + stream"

definition isValidResponse :: "GenerateContentResponse \<Rightarrow> bool" where
  "isValidResponse response =
     (case candidates response of
        None \<Rightarrow> False
      | Some cs \<Rightarrow>
          (case cs of
             [] \<Rightarrow> False
           | c # rest \<Rightarrow> (case c of None \<Rightarrow> False | Some content \<Rightarrow> isValidContent content)))"

text \<open>
  The \<^verbatim>\<open>for await\<close> loop of \<^verbatim>\<open>processStreamResponse\<close> over the chunks that arrive: the
  parts of the valid chunks are collected and an invalid chunk sets the flag.
\<close>

fun collectChunks ::
  "GenerateContentResponse list \<Rightarrow> part list \<Rightarrow> bool \<Rightarrow> part list \<times> bool" where
  "collectChunks [] modelResponseParts isStreamInvalid = (modelResponseParts, isStreamInvalid)"
| "collectChunks (chunk # rest) modelResponseParts isStreamInvalid =
     (if isValidResponse chunk
      then collectChunks rest
             (case candidates chunk of
                Some (Some content # cs) \<Rightarrow>
                  (case parts content of
                     Some ps \<Rightarrow> modelResponseParts @ ps
                   | None \<Rightarrow> modelResponseParts)
              | _ \<Rightarrow> modelResponseParts)
             isStreamInvalid
      else collectChunks rest modelResponseParts True)"

definition emptyStreamMessage :: string where
  "emptyStreamMessage = ''Model stream had invalid chunks''"

text \<open>
  The body of the async generator \<^verbatim>\<open>processStreamResponse\<close>, which runs when the caller
  iterates the generator: every chunk is yielded; an error of the underlying stream
  leaves the loop and reaches the caller; after the last chunk an invalid stream raises
  \<^verbatim>\<open>EmptyStreamError\<close>, and a valid one pushes the assembled model turn. The result is the
  chunks yielded, how the iteration ended and the session after it.
\<close>

definition processStreamResponse ::
  "stream \<Rightarrow> GeminiChat \<Rightarrow> GenerateContentResponse list \<times> (js_error + unit) \<times> GeminiChat" where
  "processStreamResponse streamResponse s =
     (case collectChunks (chunks streamResponse) [] False of
        (modelResponseParts, isStreamInvalid) \<Rightarrow>
          (case failure streamResponse of
             Some e \<Rightarrow> (chunks streamResponse, Inl e, s)
           | None \<Rightarrow>
               if isStreamInvalid
               then (chunks streamResponse, Inl (EmptyStreamError emptyStreamMessage), s)
               else (chunks streamResponse, Inr (),
                     s\<lparr>history := history s @ [\<lparr>role = Some ''model'', parts = Some modelResponseParts\<rparr>]\<rparr>)))"

text \<open>
  \<^verbatim>\<open>makeApiCallAndYieldStream\<close> awaits the request and returns the generator
  \<^verbatim>\<open>processStreamResponse(streamResponse)\<close>. Calling an async generator function runs none
  of its body, so the value returned is the stream still to be processed.
\<close>

definition makeApiCallAndYieldStream ::
  "string \<Rightarrow> StreamGenerator \<Rightarrow> content list \<Rightarrow> Config \<Rightarrow> trace \<Rightarrow> (js_error + stream) \<times> trace" where
  "makeApiCallAndYieldStream DEFAULT_GEMINI_FLASH_MODEL generateContentStream requestContents cfg t =
     (let modelToUse = model cfg
      in if quotaErrorOccurred cfg \<and> modelToUse = DEFAULT_GEMINI_FLASH_MODEL
         then (Inl (Error flashQuotaMessage), t)
         else (generateContentStream (calls t) modelToUse requestContents,
               t\<lparr>calls := Suc (calls t)\<rparr>))"

definition MAX_RETRIES :: nat where
  "MAX_RETRIES = 2"

text \<open>
  The \<^verbatim>\<open>for\<close> loop of \<^verbatim>\<open>sendMessageStream\<close>: \<open>Inr\<close> is the \<^verbatim>\<open>return stream\<close>, \<open>Inl\<close> the
  value of \<open>lastError\<close> when the loop is left by \<^verbatim>\<open>break\<close> or by its condition.
\<close>

function streamAttempts ::
  "string \<Rightarrow> StreamGenerator \<Rightarrow> content list \<Rightarrow> Config \<Rightarrow> nat \<Rightarrow> js_error \<Rightarrow> trace \<Rightarrow>
     (js_error + stream) \<times> trace" where
  "streamAttempts DEFAULT_GEMINI_FLASH_MODEL generateContentStream requestContents cfg attempt
       lastError t =
     (if attempt \<le> MAX_RETRIES
      then (case makeApiCallAndYieldStream DEFAULT_GEMINI_FLASH_MODEL generateContentStream
                   requestContents cfg t of
              (Inr str, t') \<Rightarrow> (Inr str, t')
            | (Inl error, t') \<Rightarrow>
                let errorMessage = (if instanceofError error then message error else []);
                    isRetryableNetworkError =
                      (includes' errorMessage ''429'' \<or> match5xx errorMessage);
                    isContentError = instanceofEmptyStreamError error
                in if (isRetryableNetworkError \<or> isContentError) \<and> attempt < MAX_RETRIES
                   then streamAttempts DEFAULT_GEMINI_FLASH_MODEL generateContentStream
                          requestContents cfg (Suc attempt) error
                          (t'\<lparr>delays := delays t' @ [500 * (attempt + 1)]\<rparr>)
                   else (Inl error, t'))
      else (Inl lastError, t))"
  by pat_completeness auto
termination
  by (relation "measure (\<lambda>(F, g, r, cfg, attempt, e, t). Suc MAX_RETRIES - attempt)") auto

declare streamAttempts.simps [simp del]

definition allRetriesMessage :: string where
  "allRetriesMessage = ''Request failed after all retries.''"

text \<open>
  \<^verbatim>\<open>sendMessageStream\<close>. The user content is pushed first. A returned stream is the
  generator the caller will iterate with \<open>processStreamResponse\<close>. After a failed loop the
  last history entry is popped if it is the user content (within one call it is the
  object just pushed). The result is \<open>None\<close> when curating the history does not return.
\<close>

definition sendMessageStream ::
  "string \<Rightarrow> StreamGenerator \<Rightarrow> content \<Rightarrow> GeminiChat \<Rightarrow>
     ((js_error + stream) \<times> GeminiChat \<times> trace) option" where
  "sendMessageStream DEFAULT_GEMINI_FLASH_MODEL generateContentStream userContent s =
     (let s1 = s\<lparr>history := history s @ [userContent]\<rparr>
      in case getHistory True s1 of
           None \<Rightarrow> None
         | Some requestContents \<Rightarrow>
             (case streamAttempts DEFAULT_GEMINI_FLASH_MODEL generateContentStream requestContents
                     (config s1) 0 (Error allRetriesMessage) \<lparr>calls = 0, delays = []\<rparr> of
                (Inr str, t) \<Rightarrow> Some (Inr str, s1, t)
              | (Inl lastError, t) \<Rightarrow>
                  Some (Inl lastError,
                        (if history s1 \<noteq> [] \<and> last (history s1) = userContent
                         then s1\<lparr>history := butlast (history s1)\<rparr> else s1),
                        t)))"

text \<open>The condition under which the loop of \<^verbatim>\<open>sendMessageStream\<close> goes on to another attempt.\<close>

definition streamRetryable :: "js_error \<Rightarrow> bool" where
  "streamRetryable e \<longleftrightarrow>
     includes' (message e) ''429'' \<or> match5xx (message e) \<or> instanceofEmptyStreamError e"

section \<open>The planning tool\<close>

text \<open>
  Modelled from the spec: the enumeration \<^verbatim>\<open>SubagentTerminateMode\<close> of \<^verbatim>\<open>core/subagent\<close> is
  not among the sources. The specification gives the closed set of termination reasons.
\<close>

datatype SubagentTerminateMode = GOAL | MAX_TURNS | TIMEOUT | ERROR | ABORTED

text \<open>
  What creating and running the planning sub-agent comes to: one of the two calls throws,
  or the run completes with a termination reason and the emitted variables.
\<close>

datatype subagent_run =
  RunThrows js_error
| RunCompletes SubagentTerminateMode "string \<rightharpoonup> string"

definition createPlan :: "subagent_run \<Rightarrow> string option" where
  "createPlan run =
     (case run of
        RunThrows e \<Rightarrow> None
      | RunCompletes terminate_reason emitted_vars \<Rightarrow>
          if terminate_reason = GOAL
          then (case emitted_vars ''execution_plan'' of
                  None \<Rightarrow> None
                | Some v \<Rightarrow> if v = [] then None else Some v)
          else None)"

record 'j planResponse =
  success :: bool
  error :: "string option"
  plan :: "'j option"

record 'j planFunctionResponse =
  name :: string
  response :: "'j planResponse"

record 'j ToolResult =
  llmContent :: "'j planFunctionResponse list"
  returnDisplay :: string

definition planningToolName :: string where
  "planningToolName = ''planning_tool''"

text \<open>
  \<^verbatim>\<open>PlanningTool.execute\<close>. \<^verbatim>\<open>JSON.parse\<close> and \<^verbatim>\<open>JSON.stringify\<close> are built-ins of the
  language and are parameters: \<open>parse\<close> gives \<open>None\<close> where \<^verbatim>\<open>JSON.parse\<close> throws.
\<close>

definition execute :: "(string \<Rightarrow> 'j option) \<Rightarrow> ('j \<Rightarrow> string) \<Rightarrow> subagent_run \<Rightarrow> 'j ToolResult" where
  "execute parse stringify run =
     (let plan' = createPlan run; failureMessage = ''Failed to create a plan.''
      in if plan' = None \<or> plan' = Some []
         then \<lparr>llmContent =
                 [\<lparr>name = planningToolName,
                   response = \<lparr>success = False, error = Some failureMessage, plan = None\<rparr>\<rparr>],
               returnDisplay = failureMessage\<rparr>
         else (case parse (the plan') of
                 Some parsedPlan \<Rightarrow>
                   \<lparr>llmContent =
                      [\<lparr>name = planningToolName,
                        response = \<lparr>success = True, error = None, plan = Some parsedPlan\<rparr>\<rparr>],
                    returnDisplay = stringify parsedPlan\<rparr>
               | None \<Rightarrow>
                   \<lparr>llmContent =
                      [\<lparr>name = planningToolName,
                        response = \<lparr>success = False, error = Some ''Invalid JSON response'',
                                    plan = None\<rparr>\<rparr>],
                    returnDisplay = the plan'\<rparr>))"





subsection \<open>Consolidation as the specification words it\<close>

text \<open>
  Adjacent text contents of the output are merged, other contents stay as they are: the
  output is cut into groups, each a maximal run of adjacent text contents or a single
  content that is not a text content.
\<close>

function groupTextRuns :: "content list \<Rightarrow> content list list" where
  "groupTextRuns [] = []"
| "groupTextRuns (c # cs) =
     (if isTextContent c
      then (c # takeWhile isTextContent cs) # groupTextRuns (dropWhile isTextContent cs)
      else [c] # groupTextRuns cs)"
  by pat_completeness auto
termination
  by (relation "measure length") (auto simp: length_dropWhile_le less_Suc_eq_le)





section \<open>Turns used in the examples\<close>

definition textPart :: "string \<Rightarrow> part" where
  "textPart s = \<lparr>text' = Some s, thought = None, functionCall = None,
                 functionResponse = None, otherKeys = []\<rparr>"


definition userHi :: content where
  "userHi = \<lparr>role = Some ''user'', parts = Some [textPart ''hi'']\<rparr>"

definition userMore :: content where
  "userMore = \<lparr>role = Some ''user'', parts = Some [textPart ''more'']\<rparr>"

definition modelOk :: content where
  "modelOk = \<lparr>role = Some ''model'', parts = Some [textPart ''ok'']\<rparr>"

definition modelEmpty :: content where
  "modelEmpty = \<lparr>role = Some ''model'', parts = Some []\<rparr>"








definition noRole :: content where
  "noRole = \<lparr>role = None, parts = Some [textPart ''hi'']\<rparr>"

definition s0 :: GeminiChat where
  "s0 = \<lparr>config = \<lparr>model = ''gemini-2.5-pro'', quotaErrorOccurred = False, fallbackMode = False,
                      authType = None\<rparr>,
          history = []\<rparr>"

definition exLogin :: string where "exLogin = ''oauth-personal''"
definition exFlash :: string where "exFlash = ''gemini-2.5-flash''"

definition cfgLogin :: Config where
  "cfgLogin = \<lparr>model = ''gemini-2.5-pro'', quotaErrorOccurred = False, fallbackMode = False,
               authType = Some exLogin\<rparr>"

definition switchAndDecline :: FlashFallbackHandler where
  "switchAndDecline currentModel fallbackModel e cfg = (Returns HFalse, cfg\<lparr>model := fallbackModel\<rparr>)"

definition acceptFallback :: FlashFallbackHandler where
  "acceptFallback currentModel fallbackModel e cfg = (Returns HTrue, cfg)"

definition declineFallback :: FlashFallbackHandler where
  "declineFallback currentModel fallbackModel e cfg = (Returns HNull, cfg)"

definition error429 :: js_error where "error429 = Error ''got status: 429 Too Many Requests''"
definition error503 :: js_error where "error503 = Error ''got status: 503 Service Unavailable''"
definition error400 :: js_error where "error400 = Error ''got status: 400 Bad Request''"

definition invalidChunk :: GenerateContentResponse where
  "invalidChunk = \<lparr>candidates = Some [Some \<lparr>role = Some ''model'', parts = Some [textPart '''']\<rparr>],
                   automaticFunctionCallingHistory = None\<rparr>"

definition invalidStream :: stream where
  "invalidStream = \<lparr>chunks = [invalidChunk], failure = None\<rparr>"

definition alwaysInvalidStream :: StreamGenerator where
  "alwaysInvalidStream k m requestContents = Inr invalidStream"

definition always429 :: StreamGenerator where
  "always429 k m requestContents = Inl error429"

definition okResponse :: GenerateContentResponse where
  "okResponse = \<lparr>candidates = Some [Some modelOk], automaticFunctionCallingHistory = None\<rparr>"

definition failOnceWith :: "js_error \<Rightarrow> ContentGenerator" where
  "failOnceWith e k m requestContents = (if k = 0 then Inl e else Inr okResponse)"

definition parseLiteral :: "string \<Rightarrow> string option" where
  "parseLiteral s = (if s = ''null'' \<or> s = ''true'' \<or> s = ''false'' then Some s else None)"

section \<open>Properties of the curated history\<close>


lemma collectModelOutput_eq:
  "collectModelOutput cs modelOutput isValid =
     (modelOutput @ takeWhile isModel cs,
      isValid \<and> list_all isValidContent (takeWhile isModel cs),
      dropWhile isModel cs)"
  by (induction cs arbitrary: modelOutput isValid) auto

lemma validRoles_dropWhile:
  "validRoles (dropWhile isModel cs) = validRoles cs"
  by (induction cs) (auto simp: validRoles_def)

lemma curateLoop_curate:
  "validRoles rest \<Longrightarrow> curateLoop rest acc = Some (acc @ curate rest)"
proof (induction rest arbitrary: acc rule: curate.induct)
  case 1
  show ?case by (subst curateLoop.simps) simp
next
  case (2 c cs)
  show ?case
  proof (cases "isUser c")
    case True
    with 2 show ?thesis
      by (subst curateLoop.simps) (simp add: validRoles_def)
  next
    case False
    with 2 have m: "isModel c" by (simp add: validRoles_def)
    have "validRoles cs" using "2.prems" by (simp add: validRoles_def)
    then have v: "validRoles (dropWhile isModel cs)" by (simp add: validRoles_dropWhile)
    show ?thesis
      using False m "2.IH"(2)[OF False v]
      by (subst curateLoop.simps) (simp add: collectModelOutput_eq)
  qed
qed


lemma curateLoop_Some_validRoles:
  assumes "curateLoop rest acc = Some y"
  shows "validRoles rest"
proof (rule curateLoop.raw_induct[where P = "\<lambda>r a y. validRoles r", OF _ assms])
  fix f :: "content list \<Rightarrow> content list \<Rightarrow> content list option" and r a z
  assume IH: "\<And>r' a' z'. f r' a' = Some z' \<Longrightarrow> validRoles r'"
    and eq: "(case r of [] \<Rightarrow> Some a
      | c # cs \<Rightarrow>
          if isUser c then f cs (a @ [c])
          else case collectModelOutput r [] True of
               (modelOutput, isValid, rest') \<Rightarrow>
                 f rest' (if isValid then a @ modelOutput else a)) = Some z"
  show "validRoles r"
  proof (cases r)
    case Nil
    then show ?thesis by (simp add: validRoles_def)
  next
    case (Cons c cs)
    show ?thesis
    proof (cases "isUser c")
      case True
      with eq Cons have "validRoles cs" by (auto dest: IH)
      with True Cons show ?thesis by (simp add: validRoles_def)
    next
      case False
      with eq Cons have "validRoles (dropWhile isModel r)"
        by (auto simp: collectModelOutput_eq split: if_splits dest: IH)
      then show ?thesis by (simp add: validRoles_dropWhile)
    qed
  qed
qed



lemma validParts_iff: "validParts ps \<longleftrightarrow> (\<forall>p \<in> set ps. \<not> invalidPart p)"
  by (induction ps) auto

lemma notThought_iff: "notThought p \<longleftrightarrow> thought p \<noteq> Some True"
  by (cases "thought p") (auto simp: notThought_def)

lemma isValidContent_iff: "isValidContent c \<longleftrightarrow> \<not> invalidTurn c"
  by (cases "parts c")
     (auto simp: isValidContent_def invalidTurn_def validParts_iff invalidPart_def notThought_iff)

lemma keptTurn_iff:
  "keptTurn h i \<longleftrightarrow>
     isUser (h ! i) \<or>
     (isModel (h ! i) \<and> (\<forall>j < length h. inModelRun h i j \<longrightarrow> isValidContent (h ! j)))"
  by (auto simp: keptTurn_def isValidContent_iff)

lemma isModel_not_isUser: "isModel c \<Longrightarrow> \<not> isUser c"
  by (simp add: isModel_def isUser_def)

lemma inModelRun_iff:
  "inModelRun h i j \<longleftrightarrow> (\<forall>k. min i j \<le> k \<and> k \<le> max i j \<longrightarrow> isModel (h ! k))"
  by (auto simp: inModelRun_def)

lemma inModelRun_append_shift:
  "inModelRun (run @ rest) (length run + i) (length run + j) = inModelRun rest i j"
proof -
  have "(\<forall>k. min (length run + i) (length run + j) \<le> k \<and> k \<le> max (length run + i) (length run + j)
            \<longrightarrow> isModel ((run @ rest) ! k))
      = (\<forall>k'. min i j \<le> k' \<and> k' \<le> max i j \<longrightarrow> isModel (rest ! k'))"
  proof (intro iffI allI impI)
    fix k' assume a: "\<forall>k. min (length run + i) (length run + j) \<le> k \<and> k \<le> max (length run + i) (length run + j)
            \<longrightarrow> isModel ((run @ rest) ! k)" and b: "min i j \<le> k' \<and> k' \<le> max i j"
    from b have "min (length run + i) (length run + j) \<le> length run + k' \<and> length run + k' \<le> max (length run + i) (length run + j)"
      by auto
    with a have "isModel ((run @ rest) ! (length run + k'))" by blast
    then show "isModel (rest ! k')" by simp
  next
    fix k assume a: "\<forall>k'. min i j \<le> k' \<and> k' \<le> max i j \<longrightarrow> isModel (rest ! k')"
      and b: "min (length run + i) (length run + j) \<le> k \<and> k \<le> max (length run + i) (length run + j)"
    from b have ge: "length run \<le> k" by auto
    with b have "min i j \<le> k - length run \<and> k - length run \<le> max i j" by auto
    with a have "isModel (rest ! (k - length run))" by blast
    with ge show "isModel ((run @ rest) ! k)" by (simp add: nth_append)
  qed
  then show ?thesis by (simp only: inModelRun_iff)
qed

lemma keptTurn_in_run:
  assumes run: "list_all isModel run" and i: "i < length run"
    and stop: "rest = [] \<or> \<not> isModel (hd rest)"
  shows "keptTurn (run @ rest) i \<longleftrightarrow> list_all isValidContent run"
proof
  assume k: "keptTurn (run @ rest) i"
  have mi: "isModel ((run @ rest) ! i)" using run i by (simp add: nth_append list_all_length)
  with k have all: "\<forall>j < length (run @ rest). inModelRun (run @ rest) i j \<longrightarrow> isValidContent ((run @ rest) ! j)"
    by (auto simp: keptTurn_iff dest: isModel_not_isUser)
  show "list_all isValidContent run"
    unfolding list_all_length
  proof (intro allI impI)
    fix j assume j: "j < length run"
    have "inModelRun (run @ rest) i j"
      unfolding inModelRun_iff using run i j by (auto simp: nth_append list_all_length)
    with all j have "isValidContent ((run @ rest) ! j)" by simp
    with j show "isValidContent (run ! j)" by (simp add: nth_append)
  qed
next
  assume v: "list_all isValidContent run"
  have mi: "isModel ((run @ rest) ! i)" using run i by (simp add: nth_append list_all_length)
  have "isValidContent ((run @ rest) ! j)"
    if j: "j < length (run @ rest)" and r: "inModelRun (run @ rest) i j" for j
  proof (cases "j < length run")
    case True
    with v show ?thesis by (simp add: nth_append list_all_length)
  next
    case False
    then have "min i j \<le> length run \<and> length run \<le> max i j" using i by auto
    with r have "isModel ((run @ rest) ! length run)" unfolding inModelRun_iff by blast
    moreover have "rest \<noteq> []" using False j by auto
    ultimately show ?thesis using stop by (simp add: nth_append hd_conv_nth)
  qed
  with mi show "keptTurn (run @ rest) i" unfolding keptTurn_iff by blast
qed

lemma keptTurn_after_run:
  assumes i: "i < length rest" and stop: "rest = [] \<or> \<not> isModel (hd rest)"
  shows "keptTurn (run @ rest) (length run + i) \<longleftrightarrow> keptTurn rest i"
proof -
  have ne: "rest \<noteq> []" using i by auto
  have nm: "\<not> isModel ((run @ rest) ! length run)" using stop ne by (simp add: nth_append hd_conv_nth)
  have before: "\<not> inModelRun (run @ rest) (length run + i) j" if "j < length run" for j
  proof
    assume r: "inModelRun (run @ rest) (length run + i) j"
    have "min (length run + i) j \<le> length run \<and> length run \<le> max (length run + i) j" using that by auto
    with r have "isModel ((run @ rest) ! length run)" unfolding inModelRun_iff by blast
    with nm show False by simp
  qed
  have "(\<forall>j < length (run @ rest). inModelRun (run @ rest) (length run + i) j \<longrightarrow> isValidContent ((run @ rest) ! j))
      = (\<forall>j < length rest. inModelRun rest i j \<longrightarrow> isValidContent (rest ! j))"
  proof (intro iffI allI impI)
    fix j assume a: "\<forall>j < length (run @ rest). inModelRun (run @ rest) (length run + i) j \<longrightarrow> isValidContent ((run @ rest) ! j)"
      and j: "j < length rest" and r: "inModelRun rest i j"
    from j have "length run + j < length (run @ rest)" by simp
    with a r inModelRun_append_shift[of run rest i j]
    have "isValidContent ((run @ rest) ! (length run + j))" by blast
    then show "isValidContent (rest ! j)" by simp
  next
    fix j assume a: "\<forall>j < length rest. inModelRun rest i j \<longrightarrow> isValidContent (rest ! j)"
      and j: "j < length (run @ rest)" and r: "inModelRun (run @ rest) (length run + i) j"
    from before r have ge: "length run \<le> j" by (meson not_le)
    then obtain j' where j': "j = length run + j'" using le_Suc_ex by blast
    with r have "inModelRun rest i j'" by (simp add: inModelRun_append_shift)
    with a j j' have "isValidContent (rest ! j')" by simp
    with j' show "isValidContent ((run @ rest) ! j)" by simp
  qed
  then show ?thesis by (simp only: keptTurn_iff nth_append_length_plus)
qed

lemma curatedSpec_run:
  assumes run: "list_all isModel run" and stop: "rest = [] \<or> \<not> isModel (hd rest)"
  shows "curatedSpec (run @ rest) = (if list_all isValidContent run then run else []) @ curatedSpec rest"
proof -
  let ?h = "run @ rest" and ?n = "length run"
  have split: "[0 ..< length ?h] = [0 ..< ?n] @ map (\<lambda>i. ?n + i) [0 ..< length rest]"
  proof -
    have "map (\<lambda>i. ?n + i) [0 ..< length rest] = map (\<lambda>i. i + ?n) [0 ..< length rest]"
      by (rule map_cong) simp_all
    also have "\<dots> = [?n ..< length rest + ?n]" by (rule map_add_upt)
    finally have "map (\<lambda>i. ?n + i) [0 ..< length rest] = [?n ..< ?n + length rest]"
      by (simp only: add.commute)
    moreover have "[0 ..< ?n + length rest] = [0 ..< ?n] @ [?n ..< ?n + length rest]"
      using upt_add_eq_append[of 0 ?n "length rest"] by simp
    ultimately show ?thesis by (simp only: length_append)
  qed
  have f1: "filter (keptTurn ?h) [0 ..< ?n] = (if list_all isValidContent run then [0 ..< ?n] else [])"
  proof (cases "list_all isValidContent run")
    case True
    then have "\<forall>i \<in> set [0 ..< ?n]. keptTurn ?h i" using keptTurn_in_run[OF run _ stop] by simp
    then have "filter (keptTurn ?h) [0 ..< ?n] = [0 ..< ?n]" by (rule filter_True)
    with True show ?thesis by simp
  next
    case False
    then have "\<forall>i \<in> set [0 ..< ?n]. \<not> keptTurn ?h i" using keptTurn_in_run[OF run _ stop] by simp
    then have "filter (keptTurn ?h) [0 ..< ?n] = []" by (rule filter_False)
    with False show ?thesis by simp
  qed
  have f2: "filter (keptTurn ?h) (map (\<lambda>i. ?n + i) [0 ..< length rest])
      = map (\<lambda>i. ?n + i) (filter (keptTurn rest) [0 ..< length rest])"
  proof -
    have "filter (keptTurn ?h \<circ> (\<lambda>i. ?n + i)) [0 ..< length rest] = filter (keptTurn rest) [0 ..< length rest]"
      by (rule filter_cong) (simp_all add: keptTurn_after_run[OF _ stop])
    then show ?thesis by (simp only: filter_map)
  qed
  have m1: "map (\<lambda>i. ?h ! i) [0 ..< ?n] = run"
    by (auto simp: nth_append intro!: nth_equalityI)
  have p1: "map (\<lambda>i. ?h ! i) (filter (keptTurn ?h) [0 ..< ?n]) = (if list_all isValidContent run then run else [])"
    by (simp add: f1 m1 del: upt_Suc)
  have p2: "map (\<lambda>i. ?h ! i) (filter (keptTurn ?h) (map (\<lambda>i. ?n + i) [0 ..< length rest])) = curatedSpec rest"
    by (simp only: f2 map_map o_def nth_append_length_plus curatedSpec_def)
  have "curatedSpec ?h = map (\<lambda>i. ?h ! i) (filter (keptTurn ?h) [0 ..< ?n])
      @ map (\<lambda>i. ?h ! i) (filter (keptTurn ?h) (map (\<lambda>i. ?n + i) [0 ..< length rest]))"
    by (simp only: curatedSpec_def split filter_append map_append)
  then show ?thesis by (simp only: p1 p2)
qed

lemma keptTurn_Cons_user:
  assumes nm: "\<not> isModel c"
  shows "keptTurn (c # cs) (Suc i) = keptTurn cs i"
proof -
  have z: "\<not> inModelRun (c # cs) (Suc i) 0"
    unfolding inModelRun_iff using nm by (auto intro!: exI[of _ 0])
  have s: "inModelRun (c # cs) (Suc i) (Suc j) = inModelRun cs i j" for j
    using inModelRun_append_shift[of "[c]" cs i j] by simp
  have "(\<forall>j < length (c # cs). inModelRun (c # cs) (Suc i) j \<longrightarrow> isValidContent ((c # cs) ! j))
      = (\<forall>j < length cs. inModelRun cs i j \<longrightarrow> isValidContent (cs ! j))"
    using z s by (auto simp: less_Suc_eq_0_disj)
  then show ?thesis by (simp only: keptTurn_iff nth_Cons_Suc)
qed

lemma curatedSpec_user:
  assumes "isUser c"
  shows "curatedSpec (c # cs) = c # curatedSpec cs"
proof -
  have nm: "\<not> isModel c" using assms isModel_not_isUser by blast
  have k0: "keptTurn (c # cs) 0" using assms by (simp add: keptTurn_def)
  have split: "[0 ..< length (c # cs)] = 0 # map Suc [0 ..< length cs]"
    by (simp only: length_Cons upt_conv_Cons[OF zero_less_Suc] map_Suc_upt)
  have f: "filter (keptTurn (c # cs)) (map Suc [0 ..< length cs]) = map Suc (filter (keptTurn cs) [0 ..< length cs])"
    by (simp add: filter_map o_def keptTurn_Cons_user[OF nm])
  show ?thesis
    unfolding curatedSpec_def split by (simp add: k0 f o_def del: upt_Suc)
qed

lemma curate_curatedSpec:
  "validRoles h \<Longrightarrow> curate h = curatedSpec h"
proof (induction h rule: curate.induct)
  case 1
  show ?case by (simp add: curatedSpec_def)
next
  case (2 c cs)
  show ?case
  proof (cases "isUser c")
    case True
    with 2 show ?thesis by (simp add: curatedSpec_user validRoles_def)
  next
    case False
    with 2 have m: "isModel c" by (simp add: validRoles_def)
    let ?run = "c # takeWhile isModel cs" and ?rest = "dropWhile isModel cs"
    have "validRoles cs" using "2.prems" by (simp add: validRoles_def)
    then have v: "validRoles ?rest" by (simp add: validRoles_dropWhile)
    have run: "list_all isModel ?run" using m by (auto simp: list_all_iff dest: set_takeWhileD)
    have stop: "?rest = [] \<or> \<not> isModel (hd ?rest)" by (metis hd_dropWhile)
    have "curatedSpec (c # cs) = curatedSpec (?run @ ?rest)" by simp
    also have "\<dots> = (if list_all isValidContent ?run then ?run else []) @ curatedSpec ?rest"
      by (rule curatedSpec_run[OF run stop])
    finally show ?thesis using False "2.IH"(2)[OF False v] by simp
  qed
qed


lemma extractCuratedHistory_curate:
  "validRoles h \<Longrightarrow> extractCuratedHistory h = Some (curate h)"
  by (cases h) (simp_all add: extractCuratedHistory_def curateLoop_curate)

lemma extractCuratedHistory_None:
  "\<not> validRoles h \<Longrightarrow> extractCuratedHistory h = None"
proof -
  assume n: "\<not> validRoles h"
  then have "h \<noteq> []" by (auto simp: validRoles_def)
  moreover have "curateLoop h [] = None"
    using n curateLoop_Some_validRoles[of h "[]"] by (cases "curateLoop h []") auto
  ultimately show ?thesis by (simp add: extractCuratedHistory_def)
qed

text \<open>
  On every comprehensive history whose turns are all user or model turns,
  \<^verbatim>\<open>extractCuratedHistory\<close> returns exactly the turns the specification describes, in their
  original order: every user turn, and every model turn whose maximal run of consecutive
  model turns has no invalid turn, where a turn is invalid iff it has zero parts, or a
  part without keys, or a non-thought text part that is the empty string. On any other
  history it does not return.
\<close>

theorem extractCuratedHistory_spec:
  "extractCuratedHistory h = (if validRoles h then Some (curatedSpec h) else None)"
  by (simp add: extractCuratedHistory_curate extractCuratedHistory_None curate_curatedSpec)

theorem extractCuratedHistory_spec_example:
  "extractCuratedHistory [userHi, modelEmpty, modelOk, userMore, modelOk, modelOk]
     = Some [userHi, userMore, modelOk, modelOk]"
proof -
  let ?h = "[userHi, modelEmpty, modelOk, userMore, modelOk, modelOk]"
  have v: "validRoles ?h" by code_simp
  have s: "curatedSpec ?h = [userHi, userMore, modelOk, modelOk]" by code_simp
  show ?thesis using extractCuratedHistory_spec [of ?h] by (simp only: v s if_True)
qed

text \<open>
  Claim C3, at the input where the code departs from it. The second turn of the history
  has no role. The claim gives the curated history: the user turn and the valid model
  turn. The code never returns: neither loop of \<^verbatim>\<open>extractCuratedHistory\<close> steps over a turn
  that is neither a user nor a model turn.
\<close>

theorem extractCuratedHistory_no_role_never_returns:
  "extractCuratedHistory [userHi, noRole, modelOk] = None \<and>
   curatedSpec [userHi, noRole, modelOk] = [userHi, modelOk]"
proof -
  have "\<not> validRoles [userHi, noRole, modelOk]" by code_simp
  then have "extractCuratedHistory [userHi, noRole, modelOk] = None"
    by (rule extractCuratedHistory_None)
  moreover have "curatedSpec [userHi, noRole, modelOk] = [userHi, modelOk]" by code_simp
  ultimately show ?thesis by blast
qed

lemma curate_model_turns_valid:
  "validRoles h \<Longrightarrow> list_all (\<lambda>c. isModel c \<longrightarrow> isValidContent c) (curate h)"
proof (induction h rule: curate.induct)
  case 1
  show ?case by simp
next
  case (2 c cs)
  have vcs: "validRoles cs" using "2.prems" by (simp add: validRoles_def)
  show ?case
  proof (cases "isUser c")
    case True
    then have "\<not> isModel c" using isModel_not_isUser by blast
    with True 2 vcs show ?thesis by simp
  next
    case False
    have v: "validRoles (dropWhile isModel cs)" using vcs by (simp add: validRoles_dropWhile)
    from "2.IH"(2)[OF False v] False show ?thesis
      by (auto simp: list_all_iff)
  qed
qed

lemma curate_startsWithModel_iff:
  "validRoles h \<Longrightarrow>
     startsWithModel (curate h) \<longleftrightarrow> startsWithModel h \<and> list_all isValidContent (takeWhile isModel h)"
proof (cases h)
  case Nil
  then show ?thesis by (simp add: startsWithModel_def)
next
  case (Cons c cs)
  assume v: "validRoles h"
  show ?thesis
  proof (cases "isUser c")
    case True
    then have "\<not> isModel c" using isModel_not_isUser by blast
    with True Cons show ?thesis by (simp add: startsWithModel_def)
  next
    case False
    with v Cons have m: "isModel c" by (simp add: validRoles_def)
    show ?thesis
    proof (cases "list_all isValidContent (c # takeWhile isModel cs)")
      case True
      with False m Cons show ?thesis by (simp add: startsWithModel_def)
    next
      case nv: False
      have "validRoles cs" using v Cons by (simp add: validRoles_def)
      then have vr: "validRoles (dropWhile isModel cs)" by (simp add: validRoles_dropWhile)
      have "\<not> startsWithModel (curate (dropWhile isModel cs))"
      proof (cases "dropWhile isModel cs")
        case Nil
        then have "curate (dropWhile isModel cs) = []" by (simp only: curate.simps)
        then show ?thesis by (simp only: startsWithModel_def list.case) simp
      next
        case (Cons d ds)
        then have "\<not> isModel d" by (metis hd_dropWhile list.sel(1) list.distinct(1))
        with vr Cons have "isUser d" by (simp add: validRoles_def)
        with Cons show ?thesis using isModel_not_isUser by (auto simp: startsWithModel_def)
      qed
      with nv False m Cons show ?thesis by (simp add: startsWithModel_def)
    qed
  qed
qed


lemma noConsecutiveModel_Cons_notModel:
  "\<not> isModel c \<Longrightarrow> noConsecutiveModel (c # xs) = noConsecutiveModel xs"
  by (cases xs) simp_all

lemma noConsecutiveModel_Cons_model:
  "isModel c \<Longrightarrow> noConsecutiveModel (c # xs) \<longleftrightarrow> \<not> startsWithModel xs \<and> noConsecutiveModel xs"
  by (cases xs) (simp_all add: startsWithModel_def)

lemma noConsecutiveModel_tl: "noConsecutiveModel (c # xs) \<Longrightarrow> noConsecutiveModel xs"
  by (cases xs) simp_all

lemma not_startsWithModel_takeWhile:
  "\<not> startsWithModel xs \<Longrightarrow> takeWhile isModel xs = [] \<and> dropWhile isModel xs = xs"
  by (cases xs) (simp_all add: startsWithModel_def)

lemma curate_single_runs:
  "validRoles h \<Longrightarrow> noConsecutiveModel h \<Longrightarrow> curate h = filter usable h"
proof (induction h rule: curate.induct)
  case 1
  show ?case by simp
next
  case (2 c cs)
  have vcs: "validRoles cs" using "2.prems" by (simp add: validRoles_def)
  have ncs: "noConsecutiveModel cs" using "2.prems" noConsecutiveModel_tl by blast
  show ?case
  proof (cases "isUser c")
    case True
    with 2 vcs ncs show ?thesis by (simp add: usable_def)
  next
    case False
    with "2.prems" have m: "isModel c" by (simp add: validRoles_def)
    with "2.prems" have "\<not> startsWithModel cs" by (simp add: noConsecutiveModel_Cons_model)
    then have td: "takeWhile isModel cs = []" "dropWhile isModel cs = cs"
      using not_startsWithModel_takeWhile by blast+
    from "2.IH"(2)[OF False] vcs ncs td have "curate cs = filter usable cs" by simp
    with False td show ?thesis unfolding usable_def by simp
  qed
qed

lemma validRoles_Cons: "validRoles (c # cs) \<longleftrightarrow> (isUser c \<or> isModel c) \<and> validRoles cs"
  by (simp add: validRoles_def)

lemma noConsecutiveSameRole_tl: "noConsecutiveSameRole (c # xs) \<Longrightarrow> noConsecutiveSameRole xs"
  by (cases xs) simp_all

lemma filter_usable_noConsecutiveModel:
  "validRoles h \<Longrightarrow> noConsecutiveModel h \<Longrightarrow>
     noConsecutiveModel (filter usable h) \<and>
     (startsWithModel (filter usable h) \<longrightarrow> startsWithModel h)"
proof (induction h)
  case Nil
  show ?case by simp
next
  case (Cons c cs)
  have vcs: "validRoles cs" and rc: "isUser c \<or> isModel c"
    using Cons.prems by (simp_all add: validRoles_Cons)
  have ncs: "noConsecutiveModel cs" using Cons.prems noConsecutiveModel_tl by blast
  note IH = Cons.IH[OF vcs ncs]
  show ?case
  proof (cases "isModel c")
    case True
    then have s: "startsWithModel (c # cs)" by (simp add: startsWithModel_def)
    from True Cons.prems have "\<not> startsWithModel cs" by (simp add: noConsecutiveModel_Cons_model)
    with IH have "\<not> startsWithModel (filter usable cs)" by blast
    with IH True have "noConsecutiveModel (c # filter usable cs)"
      by (simp add: noConsecutiveModel_Cons_model)
    with IH s show ?thesis by simp
  next
    case False
    with rc have u: "usable c" by (simp add: usable_def)
    from False have "\<not> startsWithModel (c # filter usable cs)" by (simp add: startsWithModel_def)
    with IH False u show ?thesis by (simp add: noConsecutiveModel_Cons_notModel)
  qed
qed

lemma noConsecutiveSameRole_imp_Model: "noConsecutiveSameRole h \<Longrightarrow> noConsecutiveModel h"
  by (induction h rule: noConsecutiveSameRole.induct) (auto simp: isModel_def)

lemma usable_iff: "isUser c \<or> isModel c \<Longrightarrow> usable c \<longleftrightarrow> (isModel c \<longrightarrow> isValidContent c)"
  using isModel_not_isUser by (auto simp: usable_def)

lemma other_role:
  "isUser c \<or> isModel c \<Longrightarrow> isUser d \<or> isModel d \<Longrightarrow> role c \<noteq> role d \<Longrightarrow>
     (isModel d \<longrightarrow> isUser c) \<and> (isUser d \<longrightarrow> isModel c)"
  by (auto simp: isUser_def isModel_def)

lemma alternating_first_usable:
  "validRoles h \<Longrightarrow> noConsecutiveSameRole h \<Longrightarrow> h \<noteq> [] \<Longrightarrow> usable (hd h) \<Longrightarrow>
     noConsecutiveSameRole (filter usable h) \<longleftrightarrow>
       list_all (\<lambda>c. isModel c \<longrightarrow> isValidContent c) (butlast h)"
proof (induction h rule: noConsecutiveSameRole.induct)
  case 1
  then show ?case by simp
next
  case (2 c)
  then show ?case by simp
next
  case (3 c d rest)
  have rc: "isUser c \<or> isModel c" and rd: "isUser d \<or> isModel d" and vr: "validRoles rest"
    using "3.prems"(1) by (simp_all add: validRoles_Cons)
  have alt: "role c \<noteq> role d" and ad: "noConsecutiveSameRole (d # rest)"
    using "3.prems"(2) by simp_all
  have uc: "usable c" using "3.prems"(4) by simp
  then have okc: "isModel c \<longrightarrow> isValidContent c" using usable_iff[OF rc] by simp
  show ?case
  proof (cases "usable d")
    case True
    have "noConsecutiveSameRole (filter usable (d # rest)) \<longleftrightarrow>
            list_all (\<lambda>c. isModel c \<longrightarrow> isValidContent c) (butlast (d # rest))"
      using "3.IH" "3.prems"(1) ad True by (simp add: validRoles_Cons)
    with True uc alt okc show ?thesis by simp
  next
    case False
    then have nokd: "\<not> (isModel d \<longrightarrow> isValidContent d)" using usable_iff[OF rd] by simp
    then have md: "isModel d" by blast
    with other_role[OF rc rd alt] have ucr: "isUser c" by blast
    show ?thesis
    proof (cases rest)
      case Nil
      with False uc okc show ?thesis by simp
    next
      case (Cons e r)
      then have re: "isUser e \<or> isModel e" using vr by (simp add: validRoles_Cons)
      from ad Cons have "role d \<noteq> role e" by simp
      with other_role[OF re rd] md have ue: "isUser e" by auto
      then have use: "usable e" by (simp add: usable_def)
      from ucr ue have "role c = role e" by (simp add: isUser_def)
      with False uc use Cons nokd show ?thesis by simp
    qed
  qed
qed

lemma alternating_filter_usable:
  assumes v: "validRoles h" and a: "noConsecutiveSameRole h"
  shows "noConsecutiveSameRole (filter usable h) \<longleftrightarrow>
           list_all (\<lambda>c. isModel c \<longrightarrow> isValidContent c) (butlast (tl h))"
proof (cases h)
  case Nil
  then show ?thesis by simp
next
  case (Cons c t)
  have rc: "isUser c \<or> isModel c" and vt: "validRoles t"
    using v Cons by (simp_all add: validRoles_Cons)
  have at: "noConsecutiveSameRole t" using a Cons noConsecutiveSameRole_tl by blast
  show ?thesis
  proof (cases "usable c")
    case True
    then have okc: "isModel c \<longrightarrow> isValidContent c" using usable_iff[OF rc] by simp
    have "noConsecutiveSameRole (filter usable h) \<longleftrightarrow>
            list_all (\<lambda>c. isModel c \<longrightarrow> isValidContent c) (butlast h)"
      using alternating_first_usable[OF v a] Cons True by simp
    with Cons okc show ?thesis by (cases t) simp_all
  next
    case False
    then have md: "isModel c" using usable_iff[OF rc] by blast
    show ?thesis
    proof (cases t)
      case Nil
      with Cons False show ?thesis by simp
    next
      case (Cons e r)
      then have re: "isUser e \<or> isModel e" using vt by (simp add: validRoles_Cons)
      from a \<open>h = c # t\<close> Cons have "role c \<noteq> role e" by simp
      with other_role[OF re rc] md have "isUser e" by auto
      then have "usable (hd t)" using Cons by (simp add: usable_def)
      with alternating_first_usable[OF vt at] Cons
      have "noConsecutiveSameRole (filter usable t) \<longleftrightarrow>
            list_all (\<lambda>c. isModel c \<longrightarrow> isValidContent c) (butlast t)" by simp
      with \<open>h = c # t\<close> False show ?thesis by simp
    qed
  qed
qed

text \<open>
  Claim C1, as amended. For every comprehensive history whose turns all have role user or
  model: every model turn of the curated history is valid; the curated history has a
  model turn at position 0 exactly when the comprehensive history begins with a run of
  model turns that are all valid; it has no two consecutive model turns when the
  comprehensive history has none; and when the comprehensive history has no two
  consecutive turns of the same role, the curated history is that history without its
  invalid model turns, and it has no two consecutive turns of the same role exactly when
  every model turn other than the first and the last turn of the comprehensive history is
  valid.
\<close>

theorem extractCuratedHistory_alternation:
  assumes "validRoles h"
  shows "\<exists>cur. extractCuratedHistory h = Some cur \<and>
           list_all (\<lambda>c. isModel c \<longrightarrow> isValidContent c) cur \<and>
           (startsWithModel cur \<longleftrightarrow>
              startsWithModel h \<and> list_all isValidContent (takeWhile isModel h)) \<and>
           (noConsecutiveModel h \<longrightarrow> noConsecutiveModel cur) \<and>
           (noConsecutiveSameRole h \<longrightarrow>
              cur = filter usable h \<and>
              (noConsecutiveSameRole cur \<longleftrightarrow>
                 list_all (\<lambda>c. isModel c \<longrightarrow> isValidContent c) (butlast (tl h))))"
proof -
  have 1: "extractCuratedHistory h = Some (curate h)"
    using assms by (rule extractCuratedHistory_curate)
  have 2: "list_all (\<lambda>c. isModel c \<longrightarrow> isValidContent c) (curate h)"
    using assms by (rule curate_model_turns_valid)
  have 3: "startsWithModel (curate h) \<longleftrightarrow>
              startsWithModel h \<and> list_all isValidContent (takeWhile isModel h)"
    using assms by (rule curate_startsWithModel_iff)
  have 4: "noConsecutiveModel (curate h)" if "noConsecutiveModel h"
    using curate_single_runs[OF assms that] filter_usable_noConsecutiveModel[OF assms that] by simp
  have 5: "curate h = filter usable h" if "noConsecutiveSameRole h"
    using curate_single_runs[OF assms noConsecutiveSameRole_imp_Model[OF that]] .
  have 6: "noConsecutiveSameRole (curate h) \<longleftrightarrow>
             list_all (\<lambda>c. isModel c \<longrightarrow> isValidContent c) (butlast (tl h))"
    if "noConsecutiveSameRole h"
    using alternating_filter_usable[OF assms that] 5[OF that] by simp
  from 1 2 3 4 5 6 show ?thesis by blast
qed

theorem extractCuratedHistory_alternation_witness:
  "validRoles [modelEmpty, userHi, modelOk, userMore, modelEmpty] \<and>
   noConsecutiveSameRole [modelEmpty, userHi, modelOk, userMore, modelEmpty] \<and>
   extractCuratedHistory [modelEmpty, userHi, modelOk, userMore, modelEmpty]
     = Some [userHi, modelOk, userMore] \<and>
   noConsecutiveSameRole [userHi, modelOk, userMore] \<and>
   noConsecutiveModel [userHi, modelOk, userMore] \<and>
   \<not> startsWithModel [userHi, modelOk, userMore]"
proof -
  let ?h = "[modelEmpty, userHi, modelOk, userMore, modelEmpty]"
  have v: "validRoles ?h" by code_simp
  have a: "noConsecutiveSameRole ?h" by code_simp
  have m: "noConsecutiveModel ?h" by code_simp
  have f: "filter usable ?h = [userHi, modelOk, userMore]" by code_simp
  have i: "list_all (\<lambda>c. isModel c \<longrightarrow> isValidContent c) (butlast (tl ?h))" by code_simp
  have l: "\<not> (startsWithModel ?h \<and> list_all isValidContent (takeWhile isModel ?h))" by code_simp
  from extractCuratedHistory_alternation [OF v] obtain cur where
    r: "extractCuratedHistory ?h = Some cur"
    and s: "startsWithModel cur \<longleftrightarrow>
              startsWithModel ?h \<and> list_all isValidContent (takeWhile isModel ?h)"
    and n: "noConsecutiveModel ?h \<longrightarrow> noConsecutiveModel cur"
    and c: "noConsecutiveSameRole ?h \<longrightarrow>
              cur = filter usable ?h \<and>
              (noConsecutiveSameRole cur \<longleftrightarrow>
                 list_all (\<lambda>c. isModel c \<longrightarrow> isValidContent c) (butlast (tl ?h)))"
    by blast
  from c a f have e: "cur = [userHi, modelOk, userMore]" by simp
  from c a i have "noConsecutiveSameRole cur" by blast
  moreover from n m have "noConsecutiveModel cur" by blast
  moreover from s l have "\<not> startsWithModel cur" by blast
  ultimately show ?thesis using v a r unfolding e by blast
qed

theorem extractCuratedHistory_alternation_counterexample:
  "validRoles [modelOk] \<and> extractCuratedHistory [modelOk] = Some [modelOk] \<and>
   startsWithModel [modelOk] \<and>
   validRoles [userHi, modelEmpty, userMore] \<and>
   noConsecutiveSameRole [userHi, modelEmpty, userMore] \<and>
   extractCuratedHistory [userHi, modelEmpty, userMore] = Some [userHi, userMore] \<and>
   \<not> noConsecutiveSameRole [userHi, userMore]"
  by code_simp


section \<open>Properties of recording an exchange\<close>















lemma groupTextRuns_Nil: "groupTextRuns xs = [] \<longleftrightarrow> xs = []"
  by (cases xs) simp_all




















section \<open>Properties of the constructor and the direct history mutators\<close>

lemma validateHistory_Inl:
  "\<exists>c \<in> set h. role c \<noteq> Some ''user'' \<and> role c \<noteq> Some ''model'' \<Longrightarrow> \<exists>m. validateHistory h = Inl (Error m)"
  by (induction h) auto

lemma validateHistory_Inr:
  "\<forall>c \<in> set h. role c = Some ''user'' \<or> role c = Some ''model'' \<Longrightarrow> validateHistory h = Inr ()"
  by (induction h) auto

text \<open>
  Claim C8. The constructor throws whenever the given history has a turn whose role is
  neither user nor model, and accepts every other history; \<^verbatim>\<open>clearHistory\<close>,
  \<^verbatim>\<open>addHistory\<close> and \<^verbatim>\<open>setHistory\<close> validate nothing and never throw, whatever they are
  given.
\<close>

theorem constructor_validates_only:
  "((\<exists>c \<in> set h. role c \<noteq> Some ''user'' \<and> role c \<noteq> Some ''model'') \<longrightarrow>
      (\<exists>m. newGeminiChat cfg h = Inl (Error m))) \<and>
   ((\<forall>c \<in> set h. role c = Some ''user'' \<or> role c = Some ''model'') \<longrightarrow>
      newGeminiChat cfg h = Inr \<lparr>config = cfg, history = h\<rparr>) \<and>
   clearHistory s = Inr (s\<lparr>history := []\<rparr>) \<and>
   addHistory c s = Inr (s\<lparr>history := history s @ [c]\<rparr>) \<and>
   setHistory h s = Inr (s\<lparr>history := h\<rparr>)"
proof -
  have 1: "\<exists>m. newGeminiChat cfg h = Inl (Error m)"
    if "\<exists>c \<in> set h. role c \<noteq> Some ''user'' \<and> role c \<noteq> Some ''model''"
  proof -
    from validateHistory_Inl[OF that] obtain m where "validateHistory h = Inl (Error m)" by blast
    then show ?thesis by (simp add: newGeminiChat_def)
  qed
  have 2: "newGeminiChat cfg h = Inr \<lparr>config = cfg, history = h\<rparr>"
    if "\<forall>c \<in> set h. role c = Some ''user'' \<or> role c = Some ''model''"
    using validateHistory_Inr[OF that] by (simp add: newGeminiChat_def)
  show ?thesis using 1 2 by (simp add: clearHistory_def addHistory_def setHistory_def)
qed

theorem constructor_validates_only_witness:
  "role noRole \<noteq> Some ''user'' \<and> role noRole \<noteq> Some ''model'' \<and>
   (\<exists>m. newGeminiChat (config s0) [userHi, noRole] = Inl (Error m)) \<and>
   list_all (\<lambda>c. role c = Some ''user'' \<or> role c = Some ''model'') [userHi, modelOk] \<and>
   newGeminiChat (config s0) [userHi, modelOk] = Inr \<lparr>config = config s0, history = [userHi, modelOk]\<rparr> \<and>
   setHistory [userHi, noRole] s0 = Inr (s0\<lparr>history := [userHi, noRole]\<rparr>)"
proof -
  have 0: "role noRole \<noteq> Some ''user'' \<and> role noRole \<noteq> Some ''model''"
    by (simp add: noRole_def)
  then have 1: "\<exists>c \<in> set [userHi, noRole]. role c \<noteq> Some ''user'' \<and> role c \<noteq> Some ''model''"
    by simp
  have 2: "\<forall>c \<in> set [userHi, modelOk]. role c = Some ''user'' \<or> role c = Some ''model''"
    by (simp add: userHi_def modelOk_def)
  then have 3: "list_all (\<lambda>c. role c = Some ''user'' \<or> role c = Some ''model'') [userHi, modelOk]"
    by (simp add: list_all_iff)
  from constructor_validates_only [of "[userHi, noRole]" "config s0" s0 userHi] 1
  have a: "(\<exists>m. newGeminiChat (config s0) [userHi, noRole] = Inl (Error m)) \<and>
           setHistory [userHi, noRole] s0 = Inr (s0\<lparr>history := [userHi, noRole]\<rparr>)" by blast
  from constructor_validates_only [of "[userHi, modelOk]" "config s0" s0 userHi] 2
  have b: "newGeminiChat (config s0) [userHi, modelOk] = Inr \<lparr>config = config s0, history = [userHi, modelOk]\<rparr>"
    by blast
  from 0 3 a b show ?thesis by blast
qed

section \<open>Properties of the retry classification\<close>

lemma includes'_iff: "includes' s sub \<longleftrightarrow> (\<exists>pre suf. s = pre @ sub @ suf)"
proof (induction s)
  case Nil
  show ?case by auto
next
  case (Cons c s)
  show ?case
  proof
    assume "includes' (c # s) sub"
    then consider "prefix sub (c # s)" | "includes' s sub" by auto
    then show "\<exists>pre suf. c # s = pre @ sub @ suf"
    proof cases
      case 1
      then obtain suf where "c # s = sub @ suf" by (auto simp: prefix_def)
      then have "c # s = [] @ sub @ suf" by simp
      then show ?thesis by blast
    next
      case 2
      with Cons obtain pre suf where "s = pre @ sub @ suf" by blast
      then have "c # s = (c # pre) @ sub @ suf" by simp
      then show ?thesis by blast
    qed
  next
    assume "\<exists>pre suf. c # s = pre @ sub @ suf"
    then obtain pre suf where eq: "c # s = pre @ sub @ suf" by blast
    show "includes' (c # s) sub"
    proof (cases pre)
      case Nil
      with eq have "prefix sub (c # s)" by (simp add: prefix_def)
      then show ?thesis by simp
    next
      case (Cons a pre')
      with eq have "s = pre' @ sub @ suf" by simp
      with Cons.IH have "includes' s sub" by blast
      then show ?thesis by simp
    qed
  qed
qed

lemma match5xx_iff:
  "match5xx s \<longleftrightarrow> (\<exists>pre d1 d2 suf. s = pre @ [CHR ''5'', d1, d2] @ suf \<and> isDigit d1 \<and> isDigit d2)"
proof (induction s rule: match5xx.induct)
  case (1 a b c s)
  show ?case
  proof
    assume "match5xx (a # b # c # s)"
    then consider "a = CHR ''5'' \<and> isDigit b \<and> isDigit c" | "match5xx (b # c # s)" by auto
    then show "\<exists>pre d1 d2 suf. a # b # c # s = pre @ [CHR ''5'', d1, d2] @ suf \<and> isDigit d1 \<and> isDigit d2"
    proof cases
      case 1
      then have "a # b # c # s = [] @ [CHR ''5'', b, c] @ s \<and> isDigit b \<and> isDigit c" by simp
      then show ?thesis by blast
    next
      case 2
      with "1.IH" obtain pre d1 d2 suf where
        "b # c # s = pre @ [CHR ''5'', d1, d2] @ suf" "isDigit d1" "isDigit d2" by blast
      then have "a # b # c # s = (a # pre) @ [CHR ''5'', d1, d2] @ suf \<and> isDigit d1 \<and> isDigit d2" by simp
      then show ?thesis by blast
    qed
  next
    assume "\<exists>pre d1 d2 suf. a # b # c # s = pre @ [CHR ''5'', d1, d2] @ suf \<and> isDigit d1 \<and> isDigit d2"
    then obtain pre d1 d2 suf where eq: "a # b # c # s = pre @ [CHR ''5'', d1, d2] @ suf"
      and d: "isDigit d1" "isDigit d2" by blast
    show "match5xx (a # b # c # s)"
    proof (cases pre)
      case Nil
      with eq d show ?thesis by simp
    next
      case (Cons x pre')
      with eq have "b # c # s = pre' @ [CHR ''5'', d1, d2] @ suf" by simp
      with d "1.IH" have "match5xx (b # c # s)" by blast
      then show ?thesis by simp
    qed
  qed
qed (auto simp: append_eq_Cons_conv)

lemma shouldRetry_iff: "shouldRetry e \<longleftrightarrow> retryableBySpec e"
proof -
  have a: "includes' (message e) ''429'' = indicates429 e"
    by (simp add: includes'_iff indicates429_def)
  have b: "match5xx (message e) = indicates5xx e"
    by (simp add: match5xx_iff indicates5xx_def isDigit_def)
  have c: "isSchemaDepthError (message e) = schemaDepthExceeded e"
    by (simp add: isSchemaDepthError_def includes'_iff schemaDepthExceeded_def)
  have ne: "message e \<noteq> []" if "indicates429 e \<or> indicates5xx e"
    using that by (auto simp: indicates429_def indicates5xx_def)
  have err: "instanceofError e" if "message e \<noteq> []"
    using that by (cases e) auto
  show ?thesis
    unfolding shouldRetry_def retryableBySpec_def a b c using ne err by auto
qed

lemma retryWithBackoff_unfold:
  "retryWithBackoff L maxAttempts retryable on429 a call attempt delay cfg t =
     (case call cfg t of
        (Inr r, t') \<Rightarrow> (Inr r, cfg, t')
      | (Inl e, t') \<Rightarrow>
          if retryable e \<and> Suc attempt < maxAttempts
          then retryWithBackoff L maxAttempts retryable on429 a
                 call (Suc attempt) (2 * delay) cfg (t'\<lparr>delays := delays t' @ [delay]\<rparr>)
          else if retryable e \<and> includes' (message e) ''429'' \<and> a = Some L
          then (case on429 a e cfg of
                  (None, cfg') \<Rightarrow> (Inl e, cfg', t')
                | (Some fallbackModel, cfg') \<Rightarrow>
                    (case call cfg' t' of (res, t'') \<Rightarrow> (res, cfg', t'')))
          else (Inl e, cfg, t'))"
  by (rule retryWithBackoff.simps)

lemma sendMessage_first_failure:
  assumes hist: "getHistory True s = Some curated"
    and failed: "apiCall F gen (curated @ [u]) (config s) \<lparr>calls = 0, delays = []\<rparr> = (Inl e, t')"
  shows "(retryableBySpec e \<and> 1 < maxAttempts \<longrightarrow>
            sendMessage L F maxAttempts d isFR h gen u s =
              recordResponse isFR u curated s
                (retryWithBackoff L maxAttempts shouldRetry (handleFlashFallback L F h)
                   (authType (config s)) (apiCall F gen (curated @ [u])) 1 (2 * d) (config s)
                   (t'\<lparr>delays := delays t' @ [d]\<rparr>))) \<and>
         (\<not> retryableBySpec e \<longrightarrow>
            sendMessage L F maxAttempts d isFR h gen u s = Some (Inl e, s, t'))"
proof -
  have 1: "retryWithBackoff L maxAttempts shouldRetry (handleFlashFallback L F h)
             (authType (config s)) (apiCall F gen (curated @ [u])) 0 d (config s) \<lparr>calls = 0, delays = []\<rparr>
           = retryWithBackoff L maxAttempts shouldRetry (handleFlashFallback L F h)
               (authType (config s)) (apiCall F gen (curated @ [u])) 1 (2 * d) (config s)
               (t'\<lparr>delays := delays t' @ [d]\<rparr>)"
    if "retryableBySpec e" "1 < maxAttempts"
    using that by (subst retryWithBackoff_unfold) (simp add: failed shouldRetry_iff)
  have 2: "retryWithBackoff L maxAttempts shouldRetry (handleFlashFallback L F h)
             (authType (config s)) (apiCall F gen (curated @ [u])) 0 d (config s) \<lparr>calls = 0, delays = []\<rparr>
           = (Inl e, config s, t')"
    if "\<not> retryableBySpec e"
    using that by (subst retryWithBackoff_unfold) (simp add: failed shouldRetry_iff)
  have 3: "sendMessage L F maxAttempts d isFR h gen u s =
      recordResponse isFR u curated s
        (retryWithBackoff L maxAttempts shouldRetry (handleFlashFallback L F h)
           (authType (config s)) (apiCall F gen (curated @ [u])) 0 d (config s) \<lparr>calls = 0, delays = []\<rparr>)"
    by (simp add: sendMessage_def hist)
  show ?thesis
    unfolding 3 using 1 2 by (auto simp: recordResponse_def)
qed

text \<open>
  Claim C4. In \<^verbatim>\<open>sendMessage\<close>, a request that fails below the attempt cap is retried, after
  the current delay and with the delay doubled, exactly when the message of its error
  indicates a 429 or a 5xx status and no schema-depth-exceeded condition; any other error
  is not retried: it reaches the caller at once, with no further request and no delay.
  The retry loop is the one the specification describes; the classifier is the one
  \<^verbatim>\<open>sendMessage\<close> passes to it.
\<close>

theorem sendMessage_retry_classification:
  assumes hist: "getHistory True s = Some curated"
    and failed: "apiCall F gen (curated @ [u]) cfg t = (Inl e, t')"
  shows "(Suc attempt < maxAttempts \<longrightarrow>
            retryWithBackoff L maxAttempts shouldRetry on429 a (apiCall F gen (curated @ [u]))
                attempt delay cfg t =
              (if retryableBySpec e
               then retryWithBackoff L maxAttempts shouldRetry on429 a (apiCall F gen (curated @ [u]))
                      (Suc attempt) (2 * delay) cfg (t'\<lparr>delays := delays t' @ [delay]\<rparr>)
               else (Inl e, cfg, t'))) \<and>
         (\<not> retryableBySpec e \<longrightarrow>
            retryWithBackoff L maxAttempts shouldRetry on429 a (apiCall F gen (curated @ [u]))
                attempt delay cfg t = (Inl e, cfg, t')) \<and>
         (cfg = config s \<and> t = \<lparr>calls = 0, delays = []\<rparr> \<longrightarrow>
            (retryableBySpec e \<and> 1 < maxAttempts \<longrightarrow>
               sendMessage L F maxAttempts d isFR h gen u s =
                 recordResponse isFR u curated s
                   (retryWithBackoff L maxAttempts shouldRetry (handleFlashFallback L F h)
                      (authType (config s)) (apiCall F gen (curated @ [u])) 1 (2 * d) (config s)
                      (t'\<lparr>delays := delays t' @ [d]\<rparr>))) \<and>
            (\<not> retryableBySpec e \<longrightarrow>
               sendMessage L F maxAttempts d isFR h gen u s = Some (Inl e, s, t')))"
proof -
  have 1: "retryWithBackoff L maxAttempts shouldRetry on429 a (apiCall F gen (curated @ [u]))
                attempt delay cfg t =
              (if retryableBySpec e
               then retryWithBackoff L maxAttempts shouldRetry on429 a (apiCall F gen (curated @ [u]))
                      (Suc attempt) (2 * delay) cfg (t'\<lparr>delays := delays t' @ [delay]\<rparr>)
               else (Inl e, cfg, t'))"
    if "Suc attempt < maxAttempts"
    using that by (subst retryWithBackoff_unfold) (simp add: failed shouldRetry_iff)
  have 2: "retryWithBackoff L maxAttempts shouldRetry on429 a (apiCall F gen (curated @ [u]))
                attempt delay cfg t = (Inl e, cfg, t')"
    if "\<not> retryableBySpec e"
    using that by (subst retryWithBackoff_unfold) (simp add: failed shouldRetry_iff)
  show ?thesis
    using 1 2 sendMessage_first_failure[OF hist, of F gen u e t' maxAttempts L d isFR h] failed
    by blast
qed

theorem sendMessage_retry_classification_witness:
  "retryableBySpec error503 \<and>
   sendMessage exLogin exFlash 5 5000 (\<lambda>c. False) None (failOnceWith error503) userHi s0
     = Some (Inr okResponse, s0\<lparr>history := [userHi, modelOk]\<rparr>, \<lparr>calls = 2, delays = [5000]\<rparr>) \<and>
   \<not> retryableBySpec error400 \<and>
   sendMessage exLogin exFlash 5 5000 (\<lambda>c. False) None (failOnceWith error400) userHi s0
     = Some (Inl error400, s0, \<lparr>calls = 1, delays = []\<rparr>)"
proof -
  let ?t0 = "\<lparr>calls = 0, delays = []\<rparr>" and ?t1 = "\<lparr>calls = 1, delays = []\<rparr>"
  have hist: "getHistory True s0 = Some []" by code_simp
  have f503: "apiCall exFlash (failOnceWith error503) ([] @ [userHi]) (config s0) ?t0 = (Inl error503, ?t1)"
    by code_simp
  have f400: "apiCall exFlash (failOnceWith error400) ([] @ [userHi]) (config s0) ?t0 = (Inl error400, ?t1)"
    by code_simp
  have r503: "shouldRetry error503" by code_simp
  have r400: "\<not> shouldRetry error400" by code_simp
  have s503: "retryableBySpec error503" using r503 by (simp add: shouldRetry_iff)
  have s400: "\<not> retryableBySpec error400" using r400 by (simp add: shouldRetry_iff)
  have cont: "recordResponse (\<lambda>c. False) userHi [] s0
                   (retryWithBackoff exLogin 5 shouldRetry (handleFlashFallback exLogin exFlash None)
                      (authType (config s0)) (apiCall exFlash (failOnceWith error503) ([] @ [userHi])) 1 (2 * 5000) (config s0)
                      (?t1\<lparr>delays := delays ?t1 @ [5000]\<rparr>))
      = Some (Inr okResponse, s0\<lparr>history := [userHi, modelOk]\<rparr>, \<lparr>calls = 2, delays = [5000]\<rparr>)"
    by code_simp
  have five: "(1::nat) < 5" by simp
  from sendMessage_retry_classification [OF hist f503, where attempt = 0 and maxAttempts = 5
      and L = exLogin and ?on429.0 = "handleFlashFallback exLogin exFlash None" and a = None and delay = 5000
      and d = 5000 and isFR = "\<lambda>c. False" and h = None]
    s503 five
  have a: "sendMessage exLogin exFlash 5 5000 (\<lambda>c. False) None (failOnceWith error503) userHi s0
     = recordResponse (\<lambda>c. False) userHi [] s0
                   (retryWithBackoff exLogin 5 shouldRetry (handleFlashFallback exLogin exFlash None)
                      (authType (config s0)) (apiCall exFlash (failOnceWith error503) ([] @ [userHi])) 1 (2 * 5000) (config s0)
                      (?t1\<lparr>delays := delays ?t1 @ [5000]\<rparr>))"
    by blast
  from sendMessage_retry_classification [OF hist f400, where attempt = 0 and maxAttempts = 5
      and L = exLogin and ?on429.0 = "handleFlashFallback exLogin exFlash None" and a = None and delay = 5000
      and d = 5000 and isFR = "\<lambda>c. False" and h = None]
    s400
  have b: "sendMessage exLogin exFlash 5 5000 (\<lambda>c. False) None (failOnceWith error400) userHi s0
     = Some (Inl error400, s0, ?t1)"
    by blast
  from a cont s503 s400 b show ?thesis by simp
qed


section \<open>Properties of the model fallback\<close>

text \<open>
  Claim C5, as amended. \<^verbatim>\<open>handleFlashFallback\<close> returns \<^verbatim>\<open>null\<close> and leaves the configuration as
  it is, without calling the handler, when the authentication type is not the interactive
  Google login or the current model is already the fallback model; so after an accepted
  fallback another call, with any handler, changes nothing. When the handler returns a
  value other than \<^verbatim>\<open>false\<close> and \<^verbatim>\<open>null\<close>, the model is set to the fallback model. When the
  handler returns \<^verbatim>\<open>false\<close> or \<^verbatim>\<open>null\<close>, the fallback is declined and the configuration is
  the one the handler left: the model is unchanged if the handler did not change it.
\<close>

theorem handleFlashFallback_cases:
  "(a \<noteq> Some L \<longrightarrow> handleFlashFallback L F h a e cfg = (None, cfg)) \<and>
   (model cfg = F \<longrightarrow> handleFlashFallback L F h a e cfg = (None, cfg)) \<and>
   (a = Some L \<and> model cfg \<noteq> F \<and> h = Some f \<and> f (model cfg) F e cfg = (Returns v, cfg') \<longrightarrow>
      (v \<noteq> HFalse \<and> v \<noteq> HNull \<longrightarrow>
         handleFlashFallback L F h a e cfg = (Some F, cfg'\<lparr>model := F, fallbackMode := True\<rparr>) \<and>
         handleFlashFallback L F h' a' e' (cfg'\<lparr>model := F, fallbackMode := True\<rparr>)
           = (None, cfg'\<lparr>model := F, fallbackMode := True\<rparr>)) \<and>
      (v = HFalse \<or> v = HNull \<longrightarrow>
         handleFlashFallback L F h a e cfg = (None, cfg') \<and>
         (cfg' = cfg \<longrightarrow> model (snd (handleFlashFallback L F h a e cfg)) = model cfg)))"
  by (auto simp: handleFlashFallback_def Let_def)

theorem handleFlashFallback_cases_witness:
  "handleFlashFallback exLogin exFlash (Some acceptFallback) None error429 cfgLogin = (None, cfgLogin) \<and>
   handleFlashFallback exLogin exFlash (Some acceptFallback) (Some exLogin) error429 (cfgLogin\<lparr>model := exFlash\<rparr>)
     = (None, cfgLogin\<lparr>model := exFlash\<rparr>) \<and>
   handleFlashFallback exLogin exFlash (Some acceptFallback) (Some exLogin) error429 cfgLogin
     = (Some exFlash, cfgLogin\<lparr>model := exFlash, fallbackMode := True\<rparr>) \<and>
   handleFlashFallback exLogin exFlash (Some declineFallback) (Some exLogin) error429 cfgLogin
     = (None, cfgLogin)"
proof -
  have 1: "None \<noteq> Some exLogin" by simp
  have 2: "model (cfgLogin\<lparr>model := exFlash\<rparr>) = exFlash" by simp
  have 3: "model cfgLogin \<noteq> exFlash" by code_simp
  have 4: "acceptFallback (model cfgLogin) exFlash error429 cfgLogin = (Returns HTrue, cfgLogin)"
    by (simp add: acceptFallback_def)
  have 5: "declineFallback (model cfgLogin) exFlash error429 cfgLogin = (Returns HNull, cfgLogin)"
    by (simp add: declineFallback_def)
  from handleFlashFallback_cases [where a = None and L = exLogin and F = exFlash
      and h = "Some acceptFallback" and e = error429 and cfg = cfgLogin] 1
  have a: "handleFlashFallback exLogin exFlash (Some acceptFallback) None error429 cfgLogin = (None, cfgLogin)"
    by blast
  from handleFlashFallback_cases [where a = "Some exLogin" and L = exLogin and F = exFlash
      and h = "Some acceptFallback" and e = error429 and cfg = "cfgLogin\<lparr>model := exFlash\<rparr>"] 2
  have b: "handleFlashFallback exLogin exFlash (Some acceptFallback) (Some exLogin) error429 (cfgLogin\<lparr>model := exFlash\<rparr>)
     = (None, cfgLogin\<lparr>model := exFlash\<rparr>)"
    by blast
  from handleFlashFallback_cases [where a = "Some exLogin" and L = exLogin and F = exFlash
      and h = "Some acceptFallback" and f = acceptFallback and e = error429 and cfg = cfgLogin
      and v = HTrue and cfg' = cfgLogin] 3 4
  have c: "handleFlashFallback exLogin exFlash (Some acceptFallback) (Some exLogin) error429 cfgLogin
     = (Some exFlash, cfgLogin\<lparr>model := exFlash, fallbackMode := True\<rparr>)"
    by simp
  from handleFlashFallback_cases [where a = "Some exLogin" and L = exLogin and F = exFlash
      and h = "Some declineFallback" and f = declineFallback and e = error429 and cfg = cfgLogin
      and v = HNull and cfg' = cfgLogin] 3 5
  have d: "handleFlashFallback exLogin exFlash (Some declineFallback) (Some exLogin) error429 cfgLogin
     = (None, cfgLogin)"
    by simp
  from a b c d show ?thesis by blast
qed

theorem handleFlashFallback_declined_counterexample:
  "switchAndDecline (model cfgLogin) exFlash error429 cfgLogin = (Returns HFalse, cfgLogin\<lparr>model := exFlash\<rparr>) \<and>
   handleFlashFallback exLogin exFlash (Some switchAndDecline) (Some exLogin) error429 cfgLogin
     = (None, cfgLogin\<lparr>model := exFlash\<rparr>) \<and>
   model (cfgLogin\<lparr>model := exFlash\<rparr>) \<noteq> model cfgLogin"
  by code_simp

section \<open>Properties of streaming\<close>

lemma streamAttempts_unfold:
  "streamAttempts F gen req cfg attempt lastError t =
     (if attempt \<le> MAX_RETRIES
      then (case makeApiCallAndYieldStream F gen req cfg t of
              (Inr str, t') \<Rightarrow> (Inr str, t')
            | (Inl err, t') \<Rightarrow>
                let errorMessage = (if instanceofError err then message err else []);
                    isRetryableNetworkError =
                      (includes' errorMessage ''429'' \<or> match5xx errorMessage);
                    isContentError = instanceofEmptyStreamError err
                in if (isRetryableNetworkError \<or> isContentError) \<and> attempt < MAX_RETRIES
                   then streamAttempts F gen req cfg (Suc attempt) err
                          (t'\<lparr>delays := delays t' @ [500 * (attempt + 1)]\<rparr>)
                   else (Inl err, t'))
      else (Inl lastError, t))"
  by (rule streamAttempts.simps)

lemma message_instanceof: "(if instanceofError e then message e else []) = message e"
  by (cases e) auto

text \<open>
  What holds of the retry loop of \<^verbatim>\<open>sendMessageStream\<close>: when the request itself is rejected
  three times, the first two times with a retryable error, two further attempts are made
  after 500 and 1000 milliseconds, the user turn is removed again and the last error is
  thrown.
\<close>

lemma sendMessageStream_request_failures:
  assumes hist: "getHistory True (s\<lparr>history := history s @ [u]\<rparr>) = Some req"
    and quota: "\<not> (quotaErrorOccurred (config s) \<and> model (config s) = F)"
    and e0: "gen 0 (model (config s)) req = Inl e0" "streamRetryable e0"
    and e1: "gen 1 (model (config s)) req = Inl e1" "streamRetryable e1"
    and e2: "gen 2 (model (config s)) req = Inl e2"
  shows "sendMessageStream F gen u s = Some (Inl e2, s, \<lparr>calls = 3, delays = [500, 1000]\<rparr>)"
proof -
  let ?cfg = "config s"
  have call: "makeApiCallAndYieldStream F gen req ?cfg \<lparr>calls = k, delays = ds\<rparr>
      = (gen k (model ?cfg) req, \<lparr>calls = Suc k, delays = ds\<rparr>)" for k ds
    using quota by (auto simp: makeApiCallAndYieldStream_def Let_def)
  have a2: "streamAttempts F gen req ?cfg 2 e1 \<lparr>calls = 2, delays = [500, 1000]\<rparr>
      = (Inl e2, \<lparr>calls = 3, delays = [500, 1000]\<rparr>)"
    using e2 by (subst streamAttempts_unfold) (simp add: call MAX_RETRIES_def numeral_2_eq_2 numeral_3_eq_3 Let_def)
  have a1: "streamAttempts F gen req ?cfg 1 e0 \<lparr>calls = 1, delays = [500]\<rparr>
      = (Inl e2, \<lparr>calls = 3, delays = [500, 1000]\<rparr>)"
    using e1 a2
    by (subst streamAttempts_unfold)
       (auto simp: call MAX_RETRIES_def Let_def message_instanceof streamRetryable_def numeral_2_eq_2)
  have a0: "streamAttempts F gen req ?cfg 0 (Error allRetriesMessage) \<lparr>calls = 0, delays = []\<rparr>
      = (Inl e2, \<lparr>calls = 3, delays = [500, 1000]\<rparr>)"
    using e0 a1
    by (subst streamAttempts_unfold)
       (auto simp: call MAX_RETRIES_def Let_def message_instanceof streamRetryable_def)
  show ?thesis
    by (simp add: sendMessageStream_def Let_def hist a0)
qed

text \<open>
  Claim C2, at the input where the code departs from it. The request resolves with a
  stream whose only chunk is invalid (an empty text, no thought marker).
  \<^verbatim>\<open>sendMessageStream\<close> returns the generator after this first request: one request,
  no delay, the user turn in the history. The \<^verbatim>\<open>EmptyStreamError\<close> is raised when the
  caller drains the generator, outside the retry loop: no further attempt is made and the
  user turn stays in the history.
\<close>

theorem sendMessageStream_invalid_stream_not_retried:
  "sendMessageStream exFlash alwaysInvalidStream userHi s0
     = Some (Inr invalidStream, s0\<lparr>history := [userHi]\<rparr>, \<lparr>calls = 1, delays = []\<rparr>) \<and>
   processStreamResponse invalidStream (s0\<lparr>history := [userHi]\<rparr>)
     = ([invalidChunk], Inl (EmptyStreamError emptyStreamMessage), s0\<lparr>history := [userHi]\<rparr>)"
  by code_simp

section \<open>Properties of the planning tool\<close>

text \<open>
  Claim C9, as amended. When the planning sub-agent terminates with reason \<^verbatim>\<open>GOAL\<close> and the
  emitted \<^verbatim>\<open>execution_plan\<close> fails JSON parsing, \<^verbatim>\<open>execute\<close> returns a result with
  \<^verbatim>\<open>success=false\<close>: for a non-empty plan the raw plan text is the display and the error is
  \<^verbatim>\<open>Invalid JSON response\<close>; an empty plan counts as no plan, and the display and the error
  are \<^verbatim>\<open>Failed to create a plan.\<close>
\<close>

theorem execute_unparsable_plan:
  assumes "run = RunCompletes GOAL emitted_vars"
    and "emitted_vars ''execution_plan'' = Some p"
    and "parse p = None"
  shows "execute parse stringify run =
           (if p = []
            then \<lparr>llmContent =
                    [\<lparr>name = planningToolName,
                      response = \<lparr>success = False, error = Some ''Failed to create a plan.'', plan = None\<rparr>\<rparr>],
                  returnDisplay = ''Failed to create a plan.''\<rparr>
            else \<lparr>llmContent =
                    [\<lparr>name = planningToolName,
                      response = \<lparr>success = False, error = Some ''Invalid JSON response'', plan = None\<rparr>\<rparr>],
                  returnDisplay = p\<rparr>)"
  using assms by (simp add: execute_def createPlan_def Let_def)

theorem execute_unparsable_plan_witness:
  "parseLiteral ''not a valid json'' = None \<and>
   execute parseLiteral id (RunCompletes GOAL [''execution_plan'' \<mapsto> ''not a valid json'']) =
     \<lparr>llmContent =
        [\<lparr>name = planningToolName,
          response = \<lparr>success = False, error = Some ''Invalid JSON response'', plan = None\<rparr>\<rparr>],
      returnDisplay = ''not a valid json''\<rparr>"
proof -
  have 1: "[''execution_plan'' \<mapsto> ''not a valid json''] ''execution_plan'' = Some ''not a valid json''"
    by simp
  have 2: "parseLiteral ''not a valid json'' = None" by (simp add: parseLiteral_def)
  have 3: "''not a valid json'' \<noteq> []" by simp
  from execute_unparsable_plan [where run = "RunCompletes GOAL [''execution_plan'' \<mapsto> ''not a valid json'']"
      and emitted_vars = "[''execution_plan'' \<mapsto> ''not a valid json'']" and p = "''not a valid json''"
      and parse = parseLiteral and stringify = id, OF refl 1 2] 2 3
  show ?thesis by simp
qed

theorem execute_empty_plan_counterexample:
  "parseLiteral [] = None \<and>
   returnDisplay (execute parseLiteral id (RunCompletes GOAL [''execution_plan'' \<mapsto> []]))
     = ''Failed to create a plan.'' \<and>
   returnDisplay (execute parseLiteral id (RunCompletes GOAL [''execution_plan'' \<mapsto> []])) \<noteq> []"
  by (simp add: parseLiteral_def execute_def createPlan_def Let_def)

end
